theory Spec2Isabelle
  imports Complex_Main "HOL-Library.Word" "HOL-Library.Multiset"
begin

section \<open>Hierarchical network processor (dbHierNetworkProcessor.cc)\<close>

text \<open>
  A shallow embedding of the cluster containers of the hierarchical connectivity
  extraction: \<open>Connectivity\<close>, \<open>local_cluster\<close>, \<open>local_clusters\<close>,
  \<open>connected_clusters\<close>, \<open>hier_clusters\<close> and the join bookkeeping of
  \<open>hc_receiver\<close>. Mutation is explicit state passing, \<open>tl_assert\<close> is an error value,
  \<open>std::map\<close> is a partial function (or a key-sorted association list where the code
  iterates over it), \<open>std::list\<close> and the object store of a box tree are lists.
\<close>

subsection \<open>Basic types\<close>

type_synonym layer_id = "32 word"
type_synonym cell_index_type = "32 word"
type_synonym id_type = "64 word"
type_synonym attr_id = "64 word"

datatype error = AssertionFailed

text \<open>
  Modelled from the spec: \<open>db::Box\<close> is declared in dbBox.h, which is not part of the
  sources. A default-constructed box (\<open>box_type ()\<close>) is the empty box; any other box has
  four integer coordinates.
\<close>

datatype box = EmptyBox | Box (left: int) (bottom: int) (right: int) (top: int)

text \<open>
  A cluster instance is the pair of a child cluster id and the instance element (one
  placement of an instance array). \<open>db::InstElement\<close> is external and stays a type
  parameter.
\<close>

datatype 'i ClusterInstance = ClusterInstance (ci_id: id_type) (ci_inst: 'i)

subsection \<open>local_cluster\<close>

text \<open>
  \<open>m_shapes\<close> is a \<open>std::map<unsigned int, tree_type>\<close>: an association list with
  strictly ascending keys, so that iterating the list is iterating the map. A tree is the
  list of its shapes in insertion order.
\<close>

record 'sh local_cluster =
  m_id :: id_type
  m_needs_update :: bool
  m_shapes :: "(layer_id \<times> 'sh list) list"
  m_bbox :: box
  m_attrs :: "attr_id set"
  m_size :: "64 word"

definition local_cluster_new :: "id_type \<Rightarrow> 'sh local_cluster" where
  "local_cluster_new i =
     \<lparr>m_id = i, m_needs_update = False, m_shapes = [], m_bbox = EmptyBox,
      m_attrs = {}, m_size = 0\<rparr>"

definition clear :: "'sh local_cluster \<Rightarrow> 'sh local_cluster" where
  "clear c = c\<lparr>m_shapes := [], m_needs_update := False, m_size := 0,
               m_bbox := EmptyBox, m_attrs := {}\<rparr>"

definition add_attr :: "attr_id \<Rightarrow> 'sh local_cluster \<Rightarrow> 'sh local_cluster" where
  "add_attr a c = (if a > 0 then c\<lparr>m_attrs := insert a (m_attrs c)\<rparr> else c)"

text \<open>
  \<open>m_shapes [la].insert (first, last)\<close>: \<open>operator[]\<close> creates the (empty) tree of layer
  \<open>la\<close> when the map has none, at its place in key order; the shapes are appended.
\<close>

fun shapes_insert :: "layer_id \<Rightarrow> 'sh list \<Rightarrow> (layer_id \<times> 'sh list) list
    \<Rightarrow> (layer_id \<times> 'sh list) list" where
  "shapes_insert la xs [] = [(la, xs)]"
| "shapes_insert la xs ((k, t) # m) =
     (if la < k then (la, xs) # (k, t) # m
      else if la = k then (k, t @ xs) # m
      else (k, t) # shapes_insert la xs m)"

definition add :: "'sh \<Rightarrow> layer_id \<Rightarrow> 'sh local_cluster \<Rightarrow> 'sh local_cluster" where
  "add s la c = c\<lparr>m_shapes := shapes_insert la [s] (m_shapes c),
                  m_needs_update := True, m_size := m_size c + 1\<rparr>"

definition join_with :: "'sh local_cluster \<Rightarrow> 'sh local_cluster \<Rightarrow> 'sh local_cluster" where
  "join_with other c =
     c\<lparr>m_shapes := fold (\<lambda>(l, t) m. shapes_insert l t m) (m_shapes other) (m_shapes c),
       m_attrs := m_attrs c \<union> m_attrs other,
       m_size := m_size c + m_size other,
       m_needs_update := True\<rparr>"

text \<open>
  Modelled from the spec: \<open>set_id\<close> is defined in the header, which is not part of the
  sources; \<open>local_clusters::insert\<close> uses it to give a new cluster the id index + 1.
\<close>

definition set_id :: "id_type \<Rightarrow> 'sh local_cluster \<Rightarrow> 'sh local_cluster" where
  "set_id i c = c\<lparr>m_id := i\<rparr>"

text \<open>\<open>layers ()\<close> lists the keys of \<open>m_shapes\<close>; \<open>begin (l)\<close> iterates the tree of layer
  \<open>l\<close>, or a static empty tree when the layer has none.\<close>

definition layers :: "'sh local_cluster \<Rightarrow> layer_id list" where
  "layers c = map fst (m_shapes c)"

definition begin_shapes :: "'sh local_cluster \<Rightarrow> layer_id \<Rightarrow> 'sh list" where
  "begin_shapes c l = (case map_of (m_shapes c) l of None \<Rightarrow> [] | Some t \<Rightarrow> t)"

text \<open>The clusters that the operations of the class can produce from a new cluster.\<close>

inductive cluster_reachable :: "'sh local_cluster \<Rightarrow> bool" where
  cr_new: "cluster_reachable (local_cluster_new i)"
| cr_clear: "cluster_reachable c \<Longrightarrow> cluster_reachable (clear c)"
| cr_add_attr: "cluster_reachable c \<Longrightarrow> cluster_reachable (add_attr a c)"
| cr_add: "cluster_reachable c \<Longrightarrow> cluster_reachable (add s la c)"
| cr_join_with: "cluster_reachable c \<Longrightarrow> cluster_reachable other
    \<Longrightarrow> cluster_reachable (join_with other c)"
| cr_set_id: "cluster_reachable c \<Longrightarrow> cluster_reachable (set_id i c)"

subsection \<open>local_clusters\<close>

text \<open>
  \<open>m_clusters\<close> is a box tree; its object store is addressed by index
  (\<open>objects ().item (id - 1)\<close>) and modelled as a list. \<open>connected_clusters\<close> derives from
  \<open>local_clusters\<close>, so the operations are defined on the record scheme.
\<close>

record 'sh local_clusters =
  m_needs_update_cs :: bool
  m_bbox_cs :: box
  m_clusters :: "'sh local_cluster list"
  m_next_dummy_id :: id_type

text \<open>
  Modelled from the spec: the default argument of the \<open>local_cluster\<close> constructor is in
  the header, which is not part of the sources; the static \<open>empty_cluster\<close> is a cleared
  cluster with the nil id 0.
\<close>

definition empty_cluster :: "'sh local_cluster" where
  "empty_cluster = local_cluster_new 0"

definition cluster_by_id :: "('sh, 'z) local_clusters_scheme \<Rightarrow> id_type
    \<Rightarrow> error + 'sh local_cluster" where
  "cluster_by_id s i =
     (if \<not> i > 0 then Inl AssertionFailed
      else if unat i > length (m_clusters s) then Inr empty_cluster
      else Inr (m_clusters s ! (unat i - 1)))"

definition remove_cluster :: "id_type \<Rightarrow> ('sh, 'z) local_clusters_scheme
    \<Rightarrow> ('sh, 'z) local_clusters_scheme" where
  "remove_cluster i s =
     (if i = 0 \<or> unat i > length (m_clusters s) then s
      else s\<lparr>m_clusters := (m_clusters s)[unat i - 1 := clear (m_clusters s ! (unat i - 1))],
             m_needs_update_cs := True\<rparr>)"

text \<open>
  \<open>first->join_with (*with)\<close> followed by \<open>with->clear ()\<close>, on the two slots in this
  order (for \<open>id = with_id\<close> both pointers name the same slot).
\<close>

definition lcs_join_cluster_with :: "id_type \<Rightarrow> id_type \<Rightarrow> ('sh, 'z) local_clusters_scheme
    \<Rightarrow> error + ('sh, 'z) local_clusters_scheme" where
  "lcs_join_cluster_with i with_id s =
     (if \<not> i > 0 then Inl AssertionFailed
      else if with_id = 0 \<or> unat with_id > length (m_clusters s)
              \<or> unat i > length (m_clusters s) then Inr s
      else
        let cs = m_clusters s;
            cs1 = cs[unat i - 1 := join_with (cs ! (unat with_id - 1)) (cs ! (unat i - 1))];
            cs2 = cs1[unat with_id - 1 := clear (cs1 ! (unat with_id - 1))]
        in Inr (s\<lparr>m_clusters := cs2, m_needs_update_cs := True\<rparr>))"

definition insert_cluster :: "('sh, 'z) local_clusters_scheme
    \<Rightarrow> id_type \<times> ('sh, 'z) local_clusters_scheme" where
  "insert_cluster s =
     (let i = of_nat (length (m_clusters s)) + 1
      in (i, s\<lparr>m_clusters := m_clusters s @ [set_id i (local_cluster_new 0)],
               m_needs_update_cs := True\<rparr>))"


subsection \<open>connected_clusters\<close>

record ('sh, 'i) connected_clusters = "'sh local_clusters" +
  m_connections :: "id_type \<rightharpoonup> 'i ClusterInstance list"
  m_rev_connections :: "'i ClusterInstance \<rightharpoonup> id_type"

definition connected_clusters_new :: "('sh, 'i) connected_clusters" where
  "connected_clusters_new =
     \<lparr>m_needs_update_cs = False, m_bbox_cs = EmptyBox, m_clusters = [],
      m_next_dummy_id = 0, m_connections = Map.empty, m_rev_connections = Map.empty\<rparr>"

definition connections_for_cluster :: "('sh, 'i) connected_clusters \<Rightarrow> id_type
    \<Rightarrow> 'i ClusterInstance list" where
  "connections_for_cluster s i = (case m_connections s i of None \<Rightarrow> [] | Some l \<Rightarrow> l)"

definition add_connection :: "id_type \<Rightarrow> 'i ClusterInstance \<Rightarrow> ('sh, 'i) connected_clusters
    \<Rightarrow> ('sh, 'i) connected_clusters" where
  "add_connection i inst s =
     s\<lparr>m_connections := (m_connections s)(i \<mapsto> connections_for_cluster s i @ [inst]),
       m_rev_connections := (m_rev_connections s)(inst \<mapsto> i)\<rparr>"

definition join_cluster_with :: "id_type \<Rightarrow> id_type \<Rightarrow> ('sh, 'i) connected_clusters
    \<Rightarrow> error + ('sh, 'i) connected_clusters" where
  "join_cluster_with i with_id s =
     (if i = with_id then Inr s
      else case lcs_join_cluster_with i with_id s of
        Inl e \<Rightarrow> Inl e
      | Inr s1 \<Rightarrow>
          let to_join = connections_for_cluster s1 with_id;
              target = connections_for_cluster s1 i @ to_join;
              s2 = s1\<lparr>m_connections := (m_connections s1)(i \<mapsto> target)\<rparr>;
              s3 = s2\<lparr>m_rev_connections :=
                        fold (\<lambda>c r. r(c \<mapsto> i)) to_join (m_rev_connections s2)\<rparr>
          in Inr (s3\<lparr>m_connections := (m_connections s3)(with_id := None)\<rparr>))"

definition find_cluster_with_connection :: "('sh, 'i) connected_clusters
    \<Rightarrow> 'i ClusterInstance \<Rightarrow> id_type" where
  "find_cluster_with_connection s inst =
     (case m_rev_connections s inst of Some i \<Rightarrow> i | None \<Rightarrow> 0)"

subsection \<open>hier_clusters\<close>

record ('sh, 'i) hier_clusters =
  m_per_cell_clusters :: "cell_index_type \<rightharpoonup> ('sh, 'i) connected_clusters"

definition clusters_per_cell :: "('sh, 'i) hier_clusters \<Rightarrow> cell_index_type
    \<Rightarrow> ('sh, 'i) connected_clusters" where
  "clusters_per_cell h ci =
     (case m_per_cell_clusters h ci of None \<Rightarrow> connected_clusters_new | Some c \<Rightarrow> c)"

subsection \<open>connected_clusters: the states of the connection maps\<close>

text \<open>
  The states of the connection maps that \<open>add_connection\<close> and \<open>join_cluster_with\<close>
  produce from a state without connections, where \<open>add_connection\<close> is only used for an
  edge that no other cluster lists (the callers look the edge up with
  \<open>find_cluster_with_connection\<close> first).
\<close>

inductive cc_reachable :: "('sh, 'i) connected_clusters \<Rightarrow> bool" where
  ccr_init: "m_connections s = Map.empty \<Longrightarrow> m_rev_connections s = Map.empty
    \<Longrightarrow> cc_reachable s"
| ccr_add: "cc_reachable s \<Longrightarrow> \<forall>j. j \<noteq> i \<longrightarrow> inst \<notin> set (connections_for_cluster s j)
    \<Longrightarrow> cc_reachable (add_connection i inst s)"
| ccr_join: "cc_reachable s \<Longrightarrow> join_cluster_with i with_id s = Inr s'
    \<Longrightarrow> cc_reachable s'"

text \<open>The same without the restriction on \<open>add_connection\<close>.\<close>

inductive cc_reachable_any :: "('sh, 'i) connected_clusters \<Rightarrow> bool" where
  cca_init: "m_connections s = Map.empty \<Longrightarrow> m_rev_connections s = Map.empty
    \<Longrightarrow> cc_reachable_any s"
| cca_add: "cc_reachable_any s \<Longrightarrow> cc_reachable_any (add_connection i inst s)"
| cca_join: "cc_reachable_any s \<Longrightarrow> join_cluster_with i with_id s = Inr s'
    \<Longrightarrow> cc_reachable_any s'"

text \<open>The reverse map is the exact inverse of the connection lists.\<close>

definition rev_inverse :: "('sh, 'i) connected_clusters \<Rightarrow> bool" where
  "rev_inverse s \<longleftrightarrow>
     (\<forall>ci i. m_rev_connections s ci = Some i \<longleftrightarrow> ci \<in> set (connections_for_cluster s i))"

subsection \<open>Slots, known ids and joined sets\<close>








subsection \<open>hc_receiver: promotion of an interacting pair of child clusters\<close>


subsection \<open>Connectivity\<close>

record Connectivity =
  m_connected :: "layer_id \<rightharpoonup> layer_id set"
  m_all_layers :: "layer_id set"

definition Connectivity_new :: Connectivity where
  "Connectivity_new = \<lparr>m_connected = Map.empty, m_all_layers = {}\<rparr>"

text \<open>\<open>m_connected [l]\<close>: the set of layer \<open>l\<close>, created empty when the map has none.\<close>

definition connected_at :: "Connectivity \<Rightarrow> layer_id \<Rightarrow> layer_id set" where
  "connected_at c l = (case m_connected c l of None \<Rightarrow> {} | Some s \<Rightarrow> s)"

definition connect2 :: "layer_id \<Rightarrow> layer_id \<Rightarrow> Connectivity \<Rightarrow> Connectivity" where
  "connect2 la lb c =
     (let c1 = c\<lparr>m_connected := (m_connected c)(la \<mapsto> insert lb (connected_at c la))\<rparr>;
          c2 = c1\<lparr>m_connected := (m_connected c1)(lb \<mapsto> insert la (connected_at c1 lb))\<rparr>
      in c2\<lparr>m_all_layers := insert lb (insert la (m_all_layers c2))\<rparr>)"

definition connect1 :: "layer_id \<Rightarrow> Connectivity \<Rightarrow> Connectivity" where
  "connect1 l c =
     c\<lparr>m_connected := (m_connected c)(l \<mapsto> insert l (connected_at c l)),
       m_all_layers := insert l (m_all_layers c)\<rparr>"

text \<open>
  \<open>begin_connected (layer)\<close> .. \<open>end_connected (layer)\<close>: the layers connected to a layer,
  the static \<open>s_empty_layers\<close> when the layer has no entry.
\<close>

definition begin_connected :: "Connectivity \<Rightarrow> layer_id \<Rightarrow> layer_id set" where
  "begin_connected c layer =
     (case m_connected c layer of None \<Rightarrow> {} | Some s \<Rightarrow> s)"

text \<open>
  The shapes are polygon references: a polygon body with a displacement. The geometry
  (dbPolygon.h, dbPolygonTools.h, dbTrans.h) is external; its operations are the fields
  of a record that the functions take as a parameter. \<open>'p\<close> is the polygon type, \<open>'d\<close>
  the displacement of a reference and \<open>'t\<close> the transformation type \<open>Trans\<close> of the
  template (\<open>db::ICplxTrans\<close>).
\<close>

record ('p, 'd) PolygonRef =
  obj :: 'p
  trans :: 'd

record ('p, 'd, 't) geometry =
  is_box :: "'p \<Rightarrow> bool"
  box_of :: "'p \<Rightarrow> box"
  box_transformed_disp :: "box \<Rightarrow> 'd \<Rightarrow> box"
  box_transformed :: "box \<Rightarrow> 't \<Rightarrow> box"
  poly_transformed_disp :: "'p \<Rightarrow> 'd \<Rightarrow> 'p"
  poly_transformed :: "'p \<Rightarrow> 't \<Rightarrow> 'p"
  trans_of_disp :: "'d \<Rightarrow> 't"
  trans_mult :: "'t \<Rightarrow> 't \<Rightarrow> 't"
  interact_box :: "box \<Rightarrow> box \<Rightarrow> bool"
  interact_poly :: "'p \<Rightarrow> 'p \<Rightarrow> bool"

text \<open>The argument \<open>trans\<close> of the two instantiations: \<open>db::UnitTrans\<close>, which selects the
  overload without the multiplication, or a \<open>db::ICplxTrans\<close>.\<close>

datatype 't trans_arg = UnitTrans | CplxTrans 't

fun interaction_test :: "('p, 'd, 't) geometry \<Rightarrow> ('p, 'd) PolygonRef \<Rightarrow> ('p, 'd) PolygonRef
    \<Rightarrow> 't trans_arg \<Rightarrow> bool" where
  "interaction_test g a b (CplxTrans t) =
     (if is_box g (obj a) \<and> is_box g (obj b) then
        interact_box g (box_transformed_disp g (box_of g (obj a)) (trans a))
          (box_transformed g (box_of g (obj b)) (trans_mult g t (trans_of_disp g (trans b))))
      else
        interact_poly g (poly_transformed_disp g (obj a) (trans a))
          (poly_transformed g (obj b) (trans_mult g t (trans_of_disp g (trans b)))))"
| "interaction_test g a b UnitTrans =
     (if is_box g (obj a) \<and> is_box g (obj b) then
        interact_box g (box_transformed_disp g (box_of g (obj a)) (trans a))
          (box_transformed_disp g (box_of g (obj b)) (trans b))
      else
        interact_poly g (poly_transformed_disp g (obj a) (trans a))
          (poly_transformed_disp g (obj b) (trans b)))"

definition interacts :: "Connectivity \<Rightarrow> ('p, 'd, 't) geometry \<Rightarrow> ('p, 'd) PolygonRef
    \<Rightarrow> layer_id \<Rightarrow> ('p, 'd) PolygonRef \<Rightarrow> layer_id \<Rightarrow> 't trans_arg \<Rightarrow> bool" where
  "interacts c g a la b lb t =
     (case m_connected c la of
        None \<Rightarrow> False
      | Some s \<Rightarrow> if lb \<notin> s then False else interaction_test g a b t)"

subsection \<open>hc_receiver: deferred joins\<close>



















subsection \<open>hier_clusters::do_build: the order of the hierarchical pass\<close>

text \<open>
  The layout is external. The second pass of \<open>do_build\<close> reads the bottom-up cell order
  (\<open>begin_bottom_up\<close> .. \<open>end_bottom_up\<close>), the child cells of a cell
  (\<open>begin_child_cells\<close>) and the set \<open>called\<close> that \<open>collect_called_cells\<close> has filled.
\<close>

record layout =
  bottom_up :: "cell_index_type list"
  child_cells :: "cell_index_type \<Rightarrow> cell_index_type list"

text \<open>
  The variables of the loop (\<open>done\<close>, \<open>todo\<close>) and the log of the calls of
  \<open>build_hier_connections\<close>, one entry per call, in the order of the calls. What a call
  does to the clusters is not part of this model.
\<close>

record build_state =
  done_set :: "cell_index_type set"
  todo :: "cell_index_type list"
  stitched :: "cell_index_type list"

definition build_hier_connections :: "cell_index_type \<Rightarrow> build_state \<Rightarrow> build_state" where
  "build_hier_connections c st = st\<lparr>stitched := stitched st @ [c]\<rparr>"

definition build_hier_connections_for_cells :: "cell_index_type list \<Rightarrow> build_state
    \<Rightarrow> build_state" where
  "build_hier_connections_for_cells cells st = fold build_hier_connections cells st"

text \<open>The loop over the child cells, which ends at the first child that is not done.\<close>

fun all_available :: "cell_index_type set \<Rightarrow> cell_index_type list \<Rightarrow> bool" where
  "all_available dn [] = True"
| "all_available dn (cc # ccs) = (if cc \<in> dn then all_available dn ccs else False)"

definition do_build_step :: "layout \<Rightarrow> cell_index_type set \<Rightarrow> cell_index_type
    \<Rightarrow> build_state \<Rightarrow> error + build_state" where
  "do_build_step l called c st =
     (if c \<in> called then
        if all_available (done_set st) (child_cells l c) then Inr (st\<lparr>todo := todo st @ [c]\<rparr>)
        else if todo st = [] then Inl AssertionFailed
        else
          let st1 = build_hier_connections_for_cells (todo st) st;
              st2 = st1\<lparr>done_set := done_set st1 \<union> set (todo st1)\<rparr>;
              st3 = st2\<lparr>todo := []\<rparr>
          in Inr (st3\<lparr>todo := todo st3 @ [c]\<rparr>)
      else Inr st)"

fun do_build_loop :: "layout \<Rightarrow> cell_index_type set \<Rightarrow> cell_index_type list
    \<Rightarrow> build_state \<Rightarrow> error + build_state" where
  "do_build_loop l called [] st = Inr st"
| "do_build_loop l called (c # cs) st =
     (case do_build_step l called c st of
        Inl e \<Rightarrow> Inl e
      | Inr st1 \<Rightarrow> do_build_loop l called cs st1)"

text \<open>The second pass; the result is the sequence of the stitched cells.\<close>

definition do_build_hier :: "layout \<Rightarrow> cell_index_type set \<Rightarrow> error + cell_index_type list" where
  "do_build_hier l called =
     (case do_build_loop l called (bottom_up l) \<lparr>done_set = {}, todo = [], stitched = []\<rparr> of
        Inl e \<Rightarrow> Inl e
      | Inr st \<Rightarrow> Inr (stitched (build_hier_connections_for_cells (todo st) st)))"

text \<open>In a sequence of cells, every cell comes after all its child cells (\<open>seen\<close> are the
  cells before the sequence).\<close>

fun children_before :: "layout \<Rightarrow> cell_index_type set \<Rightarrow> cell_index_type list \<Rightarrow> bool" where
  "children_before l seen [] = True"
| "children_before l seen (c # cs) =
     (set (child_cells l c) \<subseteq> seen \<and> children_before l (insert c seen) cs)"

text \<open>A cell calls another one, directly or through other cells.\<close>

inductive calls :: "layout \<Rightarrow> cell_index_type \<Rightarrow> cell_index_type \<Rightarrow> bool" where
  calls_child: "ch \<in> set (child_cells l c) \<Longrightarrow> calls l c ch"
| calls_step: "calls l c d \<Longrightarrow> ch \<in> set (child_cells l d) \<Longrightarrow> calls l c ch"

text \<open>The invariant of the loop, after the cells \<open>pre\<close> of the bottom-up order.\<close>

definition build_inv :: "layout \<Rightarrow> cell_index_type set \<Rightarrow> cell_index_type list
    \<Rightarrow> build_state \<Rightarrow> bool" where
  "build_inv l called pre st \<longleftrightarrow>
     set (stitched st) = done_set st
     \<and> done_set st \<union> set (todo st) = called \<inter> set pre
     \<and> distinct (stitched st @ todo st)
     \<and> (\<forall>c \<in> set (todo st). set (child_cells l c) \<subseteq> done_set st)
     \<and> children_before l {} (stitched st)"

subsection \<open>local_cluster: area ratio and split\<close>

text \<open>
  The geometry that \<open>area_ratio\<close> and \<open>split_cluster\<close> use is external (dbBox.h,
  \<open>db::box_convert\<close>) and a parameter: the box of a shape, the operations on boxes, and
  the arithmetic on \<open>double\<close>, whose type is \<open>'dbl\<close>. Coordinates are 32 bit signed
  integers, read as \<open>int\<close> (they are only compared here); a distance is an
  \<open>unsigned int\<close>, an area a 64 bit integer. \<open>bbox ()\<close> is defined in the header, which is
  not part of the sources, and is a parameter as well; whatever it caches in the cluster
  is not modelled, which leaves the order of the shapes in a tree open.
\<close>

record ('sh, 'dbl) split_geometry =
  bc :: "'sh \<Rightarrow> box"
  cluster_bbox :: "'sh local_cluster \<Rightarrow> box"
  box_empty :: "box \<Rightarrow> bool"
  box_area :: "box \<Rightarrow> 64 word"
  box_width :: "box \<Rightarrow> 32 word"
  box_height :: "box \<Rightarrow> 32 word"
  box_center :: "box \<Rightarrow> int \<times> int"
  box_left :: "box \<Rightarrow> int"
  box_bottom :: "box \<Rightarrow> int"
  to_double :: "64 word \<Rightarrow> 'dbl"
  ddiv :: "'dbl \<Rightarrow> 'dbl \<Rightarrow> 'dbl"
  dless :: "'dbl \<Rightarrow> 'dbl \<Rightarrow> bool"
  dzero :: "'dbl"

definition area_ratio :: "('sh, 'dbl) split_geometry \<Rightarrow> 'sh local_cluster \<Rightarrow> 'dbl" where
  "area_ratio g cl =
     (let bx = cluster_bbox g cl
      in if box_empty g bx then dzero g
         else
           let a = fold (\<lambda>(l, t) a. fold (\<lambda>s a. a + box_area g (bc g s)) t a) (m_shapes cl) 0
           in if a = 0 then dzero g
              else ddiv g (to_double g (box_area g bx)) (to_double g a))"

text \<open>One step of the loop that distributes the shapes on the two halves.\<close>

definition dispatch_shape :: "('sh, 'dbl) split_geometry \<Rightarrow> int \<Rightarrow> int \<Rightarrow> layer_id \<Rightarrow> 'sh
    \<Rightarrow> 'sh local_cluster \<times> 'sh local_cluster \<Rightarrow> 'sh local_cluster \<times> 'sh local_cluster" where
  "dispatch_shape g xthr ythr l s ab =
     (let sc = box_center g (bc g s)
      in if fst sc < xthr \<or> snd sc < ythr then (add s l (fst ab), snd ab)
         else (fst ab, add s l (snd ab)))"

text \<open>The thresholds and the two halves \<open>a\<close> and \<open>b\<close> of a cluster, both made with the id
  of the cluster.\<close>

definition split_halves :: "('sh, 'dbl) split_geometry \<Rightarrow> 'sh local_cluster
    \<Rightarrow> 'sh local_cluster \<times> 'sh local_cluster" where
  "split_halves g cl =
     (let bx = cluster_bbox g cl;
          xthr = (if box_width g bx > box_height g bx then fst (box_center g bx)
                  else box_left g bx);
          ythr = (if box_width g bx > box_height g bx then box_bottom g bx
                  else snd (box_center g bx))
      in fold (\<lambda>l ab. fold (dispatch_shape g xthr ythr l) (begin_shapes cl l) ab)
           (layers cl) (local_cluster_new (m_id cl), local_cluster_new (m_id cl)))"

text \<open>The number of shapes that the loops over \<open>layers ()\<close> and \<open>begin (l)\<close> visit.\<close>

definition shape_count :: "'sh local_cluster \<Rightarrow> nat" where
  "shape_count cl = sum_list (map (\<lambda>l. length (begin_shapes cl l)) (layers cl))"

text \<open>
  \<open>split_cluster\<close>: the output iterator is the list of the fragments written so far, the
  result is the number of fragments of this call with the extended list.
\<close>

function split_cluster :: "('sh, 'dbl) split_geometry \<Rightarrow> 'sh local_cluster \<Rightarrow> 'dbl
    \<Rightarrow> 'sh local_cluster list \<Rightarrow> nat \<times> 'sh local_cluster list" where
  "split_cluster g cl max_area_ratio output =
     (if dless g (area_ratio g cl) max_area_ratio then (0, output)
      else
        let a = fst (split_halves g cl); b = snd (split_halves g cl)
        in if m_size a = 0 \<or> m_size b = 0 then (0, output)
           else
             let ra = split_cluster g a max_area_ratio output;
                 rb = split_cluster g b max_area_ratio (snd ra);
                 ra1 = (if fst ra = 0 then (1, snd rb @ [a]) else (fst ra, snd rb));
                 rb1 = (if fst rb = 0 then (1, snd ra1 @ [b]) else (fst rb, snd ra1))
             in (fst ra1 + fst rb1, snd rb1))"
  by pat_completeness auto

text \<open>
  The keys of \<open>m_shapes\<close> ascend strictly, as the keys of a \<open>std::map\<close> do; \<open>tree_total\<close>
  is the number of shapes in all trees. A half made by \<open>split_halves\<close> is a cluster with
  the given id, without attributes, whose \<open>m_size\<close> counts its shapes.
\<close>

definition wf_cluster :: "'sh local_cluster \<Rightarrow> bool" where
  "wf_cluster c \<longleftrightarrow> sorted_wrt (<) (layers c)"

definition tree_total :: "'sh local_cluster \<Rightarrow> nat" where
  "tree_total c = sum_list (map (\<lambda>e. length (snd e)) (m_shapes c))"

definition half_ok :: "id_type \<Rightarrow> 'sh local_cluster \<Rightarrow> bool" where
  "half_ok i c \<longleftrightarrow>
     wf_cluster c \<and> m_size c = of_nat (tree_total c) \<and> m_id c = i \<and> m_attrs c = {}"

subsection \<open>Example states\<close>

text \<open>A cell with three local clusters, holding one shape each on the layers 0, 1, 0.\<close>

definition example_clusters :: "nat local_clusters" where
  "example_clusters =
     \<lparr>m_needs_update_cs = True, m_bbox_cs = EmptyBox,
      m_clusters = [add 10 0 (local_cluster_new 1), add 11 1 (local_cluster_new 2),
                    add 12 0 (local_cluster_new 3)],
      m_next_dummy_id = 0\<rparr>"

text \<open>The three clusters above as the connected clusters of a cell, without connections,
  and the same cell after some edges to child clusters have been added.\<close>

definition example_connected :: "(nat, nat) connected_clusters" where
  "example_connected =
     \<lparr>m_needs_update_cs = True, m_bbox_cs = EmptyBox,
      m_clusters = [add 10 0 (local_cluster_new 1), add 11 1 (local_cluster_new 2),
                    add 12 0 (local_cluster_new 3)],
      m_next_dummy_id = 0, m_connections = Map.empty, m_rev_connections = Map.empty\<rparr>"

definition example_edges :: "(nat, nat) connected_clusters" where
  "example_edges =
     add_connection 2 (ClusterInstance 1 22)
       (add_connection 1 (ClusterInstance 1 21)
         (add_connection 1 (ClusterInstance 1 20) example_connected))"

text \<open>
  A geometry for the examples: a polygon is a flag (is it a box) with its bounding box,
  displacements and transformations are translations, and two shapes interact when their
  boxes touch.
\<close>

fun move_box :: "box \<Rightarrow> int \<times> int \<Rightarrow> box" where
  "move_box EmptyBox v = EmptyBox"
| "move_box (Box l b r t) (dx, dy) = Box (l + dx) (b + dy) (r + dx) (t + dy)"

fun touches :: "box \<Rightarrow> box \<Rightarrow> bool" where
  "touches (Box l1 b1 r1 t1) (Box l2 b2 r2 t2) =
     (l1 \<le> r2 \<and> l2 \<le> r1 \<and> b1 \<le> t2 \<and> b2 \<le> t1)"
| "touches _ _ = False"

definition example_geometry :: "(bool \<times> box, int \<times> int, int \<times> int) geometry" where
  "example_geometry =
     \<lparr>is_box = fst, box_of = snd,
      box_transformed_disp = move_box, box_transformed = move_box,
      poly_transformed_disp = (\<lambda>p v. (fst p, move_box (snd p) v)),
      poly_transformed = (\<lambda>p v. (fst p, move_box (snd p) v)),
      trans_of_disp = (\<lambda>v. v),
      trans_mult = (\<lambda>(x1, y1) (x2, y2). (x1 + x2, y1 + y2)),
      interact_box = touches,
      interact_poly = (\<lambda>p q. touches (snd p) (snd q))\<rparr>"

definition example_connectivity :: Connectivity where
  "example_connectivity = connect2 0 1 Connectivity_new"

text \<open>Two boxes and a polygon that is no box, each with a displacement.\<close>

definition shape_a :: "(bool \<times> box, int \<times> int) PolygonRef" where
  "shape_a = \<lparr>obj = (True, Box 0 0 10 10), trans = (0, 0)\<rparr>"

definition shape_b :: "(bool \<times> box, int \<times> int) PolygonRef" where
  "shape_b = \<lparr>obj = (True, Box 0 0 10 10), trans = (5, 5)\<rparr>"

definition shape_p :: "(bool \<times> box, int \<times> int) PolygonRef" where
  "shape_p = \<lparr>obj = (False, Box 0 0 10 10), trans = (100, 100)\<rparr>"


text \<open>A layout of four cells: the top cell 0 has the children 1 and 2, cell 1 has the
  child 2, and cell 3 is not called from the top cell.\<close>

definition example_layout :: layout where
  "example_layout =
     \<lparr>bottom_up = [2, 3, 1, 0],
      child_cells = (\<lambda>c. if c = 0 then [1, 2] else if c = 1 then [2] else [])\<rparr>"

text \<open>
  A geometry for the split examples: a shape is its own box, the box of a cluster is the
  hull of the boxes of its shapes, and \<open>double\<close> is read as \<open>real\<close>.
\<close>

fun box_join :: "box \<Rightarrow> box \<Rightarrow> box" where
  "box_join EmptyBox b = b"
| "box_join a EmptyBox = a"
| "box_join (Box l1 b1 r1 t1) (Box l2 b2 r2 t2) =
     Box (min l1 l2) (min b1 b2) (max r1 r2) (max t1 t2)"

definition example_split_geometry :: "(box, real) split_geometry" where
  "example_split_geometry =
     \<lparr>bc = (\<lambda>s. s),
      cluster_bbox = (\<lambda>c. fold (\<lambda>(l, t) bx. fold (\<lambda>s bx. box_join bx s) t bx)
                              (m_shapes c) EmptyBox),
      box_empty = (\<lambda>bx. bx = EmptyBox),
      box_area = (\<lambda>bx. case bx of EmptyBox \<Rightarrow> 0
                        | Box l b r t \<Rightarrow> word_of_int ((r - l) * (t - b))),
      box_width = (\<lambda>bx. case bx of EmptyBox \<Rightarrow> 0 | Box l b r t \<Rightarrow> word_of_int (r - l)),
      box_height = (\<lambda>bx. case bx of EmptyBox \<Rightarrow> 0 | Box l b r t \<Rightarrow> word_of_int (t - b)),
      box_center = (\<lambda>bx. case bx of EmptyBox \<Rightarrow> (0, 0)
                          | Box l b r t \<Rightarrow> (l + (r - l) div 2, b + (t - b) div 2)),
      box_left = (\<lambda>bx. case bx of EmptyBox \<Rightarrow> 1 | Box l b r t \<Rightarrow> l),
      box_bottom = (\<lambda>bx. case bx of EmptyBox \<Rightarrow> 1 | Box l b r t \<Rightarrow> b),
      to_double = (\<lambda>w. real (unat w)),
      ddiv = (\<lambda>x y. x / y),
      dless = (\<lambda>x y. x < y),
      dzero = 0\<rparr>"

text \<open>A cluster with the id 1, the attribute 7 and two boxes on layer 0 that lie far
  apart, and the two fragments of its split.\<close>

definition example_cluster :: "box local_cluster" where
  "example_cluster =
     add_attr 7 (add (Box 100 0 110 10) 0 (add (Box 0 0 10 10) 0 (local_cluster_new 1)))"

definition example_fragment_a :: "box local_cluster" where
  "example_fragment_a = add (Box 0 0 10 10) 0 (local_cluster_new 1)"

definition example_fragment_b :: "box local_cluster" where
  "example_fragment_b = add (Box 100 0 110 10) 0 (local_cluster_new 1)"

section \<open>Properties\<close>

text \<open>
  C10: \<open>add_attr 0\<close> leaves a cluster as it is, and no cluster built with the operations
  of the class has the reserved attribute 0 in its attribute set.
\<close>

theorem add_attr_zero:
  "add_attr 0 c = c \<and> (cluster_reachable c \<longrightarrow> 0 \<notin> m_attrs c)"
proof
  show "add_attr 0 c = c" by (simp add: add_attr_def)
  show "cluster_reachable c \<longrightarrow> 0 \<notin> m_attrs c"
  proof
    assume "cluster_reachable c"
    then show "0 \<notin> m_attrs c"
      by (induction rule: cluster_reachable.induct)
         (auto simp add: local_cluster_new_def clear_def add_attr_def add_def join_with_def
            set_id_def)
  qed
qed

theorem add_attr_zero_witness:
  "add_attr 0 (add_attr 5 (local_cluster_new 1 :: nat local_cluster))
     = add_attr 5 (local_cluster_new 1)
   \<and> cluster_reachable (add_attr 5 (local_cluster_new 1 :: nat local_cluster))
   \<and> 0 \<notin> m_attrs (add_attr 5 (local_cluster_new 1 :: nat local_cluster))"
  using add_attr_zero [of "add_attr 5 (local_cluster_new 1 :: nat local_cluster)"]
    cr_add_attr [OF cr_new, of 5 1]
  by blast

subsection \<open>Self-join\<close>

text \<open>
  C9: \<open>connected_clusters::join_cluster_with (id, id)\<close> returns at once: shapes,
  connections and reverse connections are all as before (also for the nil id 0, because
  the assertion of the base class is never reached).
\<close>

theorem self_join_unchanged: "join_cluster_with i i s = Inr s"
  by (simp add: join_cluster_with_def)

subsection \<open>Stable ids\<close>

lemma map_m_id_clear_upd:
  "map m_id (cs[k := clear (cs ! k)]) = map m_id cs"
  by (cases "k < length cs")
     (simp_all add: map_update clear_def list_update_same_conv list_update_beyond)

lemma map_m_id_join_upd:
  "map m_id (cs[k := join_with other (cs ! k)]) = map m_id cs"
  by (cases "k < length cs")
     (simp_all add: map_update join_with_def list_update_same_conv list_update_beyond)

lemma unat_pred_neq:
  fixes i j :: id_type
  shows "i \<noteq> j \<Longrightarrow> i \<noteq> 0 \<Longrightarrow> j \<noteq> 0 \<Longrightarrow> unat i - 1 \<noteq> unat j - 1"
  by (metis One_nat_def Suc_pred' unat_gt_0 word_unat_eq_iff)

text \<open>
  C8: \<open>remove_cluster\<close> and \<open>local_clusters::join_cluster_with\<close> keep the id stored in
  every slot of the cluster store (no slot is erased or moved), and a lookup of any id
  other than the removed one, respectively other than the two joined ones, returns the
  very same cluster as before.
\<close>

theorem stable_ids:
  "map m_id (m_clusters (remove_cluster j s)) = map m_id (m_clusters s)
   \<and> (i \<noteq> j \<longrightarrow> cluster_by_id (remove_cluster j s) i = cluster_by_id s i)
   \<and> (lcs_join_cluster_with a w s = Inr s' \<longrightarrow>
        map m_id (m_clusters s') = map m_id (m_clusters s)
        \<and> (i \<noteq> a \<and> i \<noteq> w \<longrightarrow> cluster_by_id s' i = cluster_by_id s i))"
proof (intro conjI impI)
  show "map m_id (m_clusters (remove_cluster j s)) = map m_id (m_clusters s)"
    by (simp add: remove_cluster_def map_m_id_clear_upd)
  show "cluster_by_id (remove_cluster j s) i = cluster_by_id s i" if "i \<noteq> j"
    using that unat_pred_neq [of i j]
    by (auto simp add: remove_cluster_def cluster_by_id_def word_greater_zero_iff)
  show "map m_id (m_clusters s') = map m_id (m_clusters s)"
    if "lcs_join_cluster_with a w s = Inr s'"
    using that
    by (auto simp add: lcs_join_cluster_with_def Let_def map_m_id_clear_upd map_m_id_join_upd
        split: if_splits)
  show "cluster_by_id s' i = cluster_by_id s i"
    if "lcs_join_cluster_with a w s = Inr s'" and "i \<noteq> a \<and> i \<noteq> w"
    using that unat_pred_neq [of i a] unat_pred_neq [of i w]
    by (auto simp add: lcs_join_cluster_with_def Let_def cluster_by_id_def
        word_greater_zero_iff split: if_splits)
qed

theorem stable_ids_witness:
  "(3 :: id_type) \<noteq> 2 \<and> (3 :: id_type) \<noteq> 1
   \<and> cluster_by_id (remove_cluster 2 example_clusters) 3 = cluster_by_id example_clusters 3
   \<and> isl (lcs_join_cluster_with 1 2 example_clusters) = False
   \<and> map m_id (m_clusters (projr (lcs_join_cluster_with 1 2 example_clusters))) = [1, 2, 3]
   \<and> cluster_by_id (projr (lcs_join_cluster_with 1 2 example_clusters)) 3
       = cluster_by_id example_clusters 3"
proof -
  have j: "lcs_join_cluster_with 1 2 example_clusters
             = Inr (projr (lcs_join_cluster_with 1 2 example_clusters))"
    by (simp add: lcs_join_cluster_with_def example_clusters_def)
  have m: "map m_id (m_clusters example_clusters) = [1, 2, 3]"
    by (simp add: example_clusters_def add_def local_cluster_new_def)
  have n: "(3 :: id_type) \<noteq> 2 \<and> (3 :: id_type) \<noteq> 1" by simp
  from j have l: "isl (lcs_join_cluster_with 1 2 example_clusters) = False"
    by (metis sum.disc(2))
  show ?thesis
    using stable_ids [of 2 example_clusters 3 1 2
        "projr (lcs_join_cluster_with 1 2 example_clusters)"] j m n l
    by metis
qed

subsection \<open>Queries without an entry\<close>

text \<open>
  C2, as the claim states it, fails for the nil id: \<open>cluster_by_id\<close> asserts \<open>id > 0\<close>.
\<close>

theorem cluster_by_id_zero_counterexample:
  "cluster_by_id (connected_clusters_new :: (nat, nat) connected_clusters) 0
     = Inl AssertionFailed"
  by (simp add: cluster_by_id_def connected_clusters_new_def)

text \<open>
  C2, amended: \<open>cluster_by_id\<close> returns the static empty cluster for every id beyond the
  cluster store and fails the assertion for the id 0; \<open>connections_for_cluster\<close> returns
  the static empty list for an id without connections; the const \<open>clusters_per_cell\<close>
  returns the static empty \<open>connected_clusters\<close> for a cell without an entry.
\<close>

theorem empty_queries:
  "(unat i > length (m_clusters s) \<longrightarrow> cluster_by_id s i = Inr empty_cluster)
   \<and> cluster_by_id s 0 = Inl AssertionFailed
   \<and> (m_connections c i = None \<longrightarrow> connections_for_cluster c i = [])
   \<and> (m_per_cell_clusters h ci = None \<longrightarrow> clusters_per_cell h ci = connected_clusters_new)"
  by (auto simp add: cluster_by_id_def connections_for_cluster_def clusters_per_cell_def
      word_greater_zero_iff)

theorem empty_queries_witness:
  "unat (4 :: id_type) > length (m_clusters example_clusters)
   \<and> cluster_by_id example_clusters 4 = Inr empty_cluster
   \<and> m_connections (connected_clusters_new :: (nat, nat) connected_clusters) 4 = None
   \<and> connections_for_cluster (connected_clusters_new :: (nat, nat) connected_clusters) 4 = []
   \<and> m_per_cell_clusters (\<lparr>m_per_cell_clusters = Map.empty\<rparr> :: (nat, nat) hier_clusters) 5
       = None
   \<and> clusters_per_cell (\<lparr>m_per_cell_clusters = Map.empty\<rparr> :: (nat, nat) hier_clusters) 5
       = connected_clusters_new"
proof -
  have a: "unat (4 :: id_type) > length (m_clusters example_clusters)"
    by (simp add: example_clusters_def)
  have b: "m_connections (connected_clusters_new :: (nat, nat) connected_clusters) 4 = None"
    by (simp add: connected_clusters_new_def)
  have c: "m_per_cell_clusters (\<lparr>m_per_cell_clusters = Map.empty\<rparr> :: (nat, nat) hier_clusters) 5
             = None"
    by simp
  show ?thesis
    using empty_queries [where i = 4 and s = example_clusters
        and c = "connected_clusters_new :: (nat, nat) connected_clusters"
        and h = "\<lparr>m_per_cell_clusters = Map.empty\<rparr> :: (nat, nat) hier_clusters"
        and ci = 5] a b c
    by blast
qed

subsection \<open>Connections and reverse connections\<close>

lemma lcs_join_keeps_connections:
  fixes s :: "('sh, 'i) connected_clusters"
  assumes "lcs_join_cluster_with i w s = Inr s1"
  shows "m_connections s1 = m_connections s" and "m_rev_connections s1 = m_rev_connections s"
    and "m_next_dummy_id s1 = m_next_dummy_id s"
  using assms by (auto simp add: lcs_join_cluster_with_def Let_def split: if_splits)

lemma fold_repoint:
  "fold (\<lambda>c r. r(c \<mapsto> i)) xs r = (\<lambda>c. if c \<in> set xs then Some i else r c)"
  by (induction xs arbitrary: r) (auto simp add: fun_eq_iff)

lemma join_cluster_with_maps:
  fixes s :: "('sh, 'i) connected_clusters"
  assumes "join_cluster_with i w s = Inr s'" and "i \<noteq> w"
  shows "m_connections s' = (m_connections s)
           (i \<mapsto> connections_for_cluster s i @ connections_for_cluster s w, w := None)"
    and "m_rev_connections s' =
           (\<lambda>c. if c \<in> set (connections_for_cluster s w) then Some i else m_rev_connections s c)"
proof -
  from assms obtain s1 where s1: "lcs_join_cluster_with i w s = Inr s1"
    by (auto simp add: join_cluster_with_def split: sum.splits)
  have c: "connections_for_cluster s1 = connections_for_cluster s"
    using lcs_join_keeps_connections [OF s1] by (simp add: connections_for_cluster_def fun_eq_iff)
  show "m_connections s' = (m_connections s)
           (i \<mapsto> connections_for_cluster s i @ connections_for_cluster s w, w := None)"
    using assms s1 c lcs_join_keeps_connections [OF s1]
    by (auto simp add: join_cluster_with_def Let_def)
  show "m_rev_connections s' =
           (\<lambda>c. if c \<in> set (connections_for_cluster s w) then Some i else m_rev_connections s c)"
    using assms s1 c lcs_join_keeps_connections [OF s1]
    by (auto simp add: join_cluster_with_def Let_def fold_repoint)
qed

lemma rev_inverse_add:
  assumes "rev_inverse s" and "\<forall>j. j \<noteq> i \<longrightarrow> inst \<notin> set (connections_for_cluster s j)"
  shows "rev_inverse (add_connection i inst s)"
  using assms
  by (auto simp add: rev_inverse_def add_connection_def connections_for_cluster_def)

lemma rev_inverse_join:
  assumes "rev_inverse s" and "join_cluster_with i w s = Inr s'"
  shows "rev_inverse s'"
proof (cases "i = w")
  case True
  with assms show ?thesis by (simp add: join_cluster_with_def)
next
  case False
  note m = join_cluster_with_maps [OF assms(2) False]
  show ?thesis
    unfolding rev_inverse_def
  proof (intro allI)
    fix ci j
    have inv: "\<And>c k. m_rev_connections s c = Some k \<longleftrightarrow> c \<in> set (connections_for_cluster s k)"
      using assms(1) by (simp add: rev_inverse_def)
    show "m_rev_connections s' ci = Some j \<longleftrightarrow> ci \<in> set (connections_for_cluster s' j)"
    proof (cases "ci \<in> set (connections_for_cluster s w)")
      case True
      then have "m_rev_connections s ci = Some w" using inv by simp
      then have "\<And>k. k \<noteq> w \<Longrightarrow> ci \<notin> set (connections_for_cluster s k)"
        using inv by (metis option.inject)
      with True False show ?thesis
        using m by (auto simp add: connections_for_cluster_def)
    next
      case F: False
      with False show ?thesis
        using m inv [of ci j] by (auto simp add: connections_for_cluster_def)
    qed
  qed
qed

lemma cc_reachable_rev_inverse: "cc_reachable s \<Longrightarrow> rev_inverse s"
proof (induction rule: cc_reachable.induct)
  case (ccr_init s)
  then show ?case by (simp add: rev_inverse_def connections_for_cluster_def)
next
  case (ccr_add s i inst)
  then show ?case by (simp add: rev_inverse_add)
next
  case (ccr_join s i with_id s')
  then show ?case by (simp add: rev_inverse_join)
qed

text \<open>
  C3, as the claim states it, fails: \<open>add_connection\<close> overwrites the reverse entry of an
  edge that another cluster lists already. After \<open>add_connection (1, k)\<close> and
  \<open>add_connection (2, k)\<close> the edge \<open>k\<close> occurs in the list of cluster 1, but
  \<open>find_cluster_with_connection (k)\<close> does not return 1.
\<close>

theorem rev_connections_counterexample:
  "cc_reachable_any
     (add_connection 2 (ClusterInstance 1 20)
        (add_connection 1 (ClusterInstance 1 20) example_connected))
   \<and> ClusterInstance 1 20 \<in> set (connections_for_cluster
        (add_connection 2 (ClusterInstance 1 20)
          (add_connection 1 (ClusterInstance 1 20) example_connected)) 1)
   \<and> find_cluster_with_connection
        (add_connection 2 (ClusterInstance 1 20)
          (add_connection 1 (ClusterInstance 1 20) example_connected))
        (ClusterInstance 1 20) \<noteq> 1"
proof (intro conjI)
  show "cc_reachable_any
     (add_connection 2 (ClusterInstance 1 20)
        (add_connection 1 (ClusterInstance 1 20) example_connected))"
    by (intro cca_add cca_init) (simp_all add: example_connected_def)
qed (simp_all add: add_connection_def connections_for_cluster_def
       find_cluster_with_connection_def example_connected_def)

text \<open>
  C3, amended: in every state reached from a state without connections by
  \<open>add_connection (id, ci)\<close>, for edges \<open>ci\<close> that no other cluster lists, and by
  \<open>join_cluster_with\<close>, the reverse map is the exact inverse of the connection lists:
  for every id other than 0, \<open>find_cluster_with_connection (ci)\<close> returns the id if and
  only if \<open>ci\<close> occurs in the list of that id, and it returns 0 when \<open>ci\<close> occurs in no
  list. In any state, \<open>join_cluster_with (id, with_id)\<close> with different ids appends the
  list of \<open>with_id\<close> to the list of \<open>id\<close>, makes every moved edge point back to \<open>id\<close>
  and erases the list of \<open>with_id\<close>.
\<close>

theorem rev_connections_inverse:
  "(cc_reachable s \<longrightarrow>
      (\<forall>ci i. i \<noteq> 0 \<longrightarrow>
         (find_cluster_with_connection s ci = i) = (ci \<in> set (connections_for_cluster s i)))
      \<and> (\<forall>ci. (\<forall>i. ci \<notin> set (connections_for_cluster s i))
            \<longrightarrow> find_cluster_with_connection s ci = 0))
   \<and> (i \<noteq> w \<and> join_cluster_with i w s = Inr s' \<longrightarrow>
        connections_for_cluster s' i = connections_for_cluster s i @ connections_for_cluster s w
        \<and> (\<forall>c \<in> set (connections_for_cluster s w). find_cluster_with_connection s' c = i)
        \<and> m_connections s' w = None)"
proof (intro conjI impI)
  assume r: "cc_reachable s"
  have inv: "\<And>c k. m_rev_connections s c = Some k \<longleftrightarrow> c \<in> set (connections_for_cluster s k)"
    using cc_reachable_rev_inverse [OF r] by (simp add: rev_inverse_def)
  show "\<forall>ci i. i \<noteq> 0 \<longrightarrow>
         (find_cluster_with_connection s ci = i) = (ci \<in> set (connections_for_cluster s i))"
  proof (intro allI impI)
    fix ci :: "'b ClusterInstance" and i :: id_type
    assume "i \<noteq> 0"
    then show "(find_cluster_with_connection s ci = i) = (ci \<in> set (connections_for_cluster s i))"
      using inv [of ci i]
      by (auto simp add: find_cluster_with_connection_def split: option.splits)
  qed
  show "\<forall>ci. (\<forall>i. ci \<notin> set (connections_for_cluster s i))
            \<longrightarrow> find_cluster_with_connection s ci = 0"
    using inv by (auto simp add: find_cluster_with_connection_def split: option.splits)
next
  assume a: "i \<noteq> w \<and> join_cluster_with i w s = Inr s'"
  note m = join_cluster_with_maps [of i w s s']
  show "connections_for_cluster s' i = connections_for_cluster s i @ connections_for_cluster s w"
    using a m by (simp add: connections_for_cluster_def)
  show "\<forall>c \<in> set (connections_for_cluster s w). find_cluster_with_connection s' c = i"
    using a m by (simp add: find_cluster_with_connection_def)
  show "m_connections s' w = None"
    using a m by simp
qed

theorem rev_connections_inverse_witness:
  "cc_reachable example_edges
   \<and> (1 :: id_type) \<noteq> 0
   \<and> find_cluster_with_connection example_edges (ClusterInstance 1 21) = 1
   \<and> ClusterInstance 1 21 \<in> set (connections_for_cluster example_edges 1)
   \<and> (\<forall>i. ClusterInstance 9 9 \<notin> set (connections_for_cluster example_edges i))
   \<and> find_cluster_with_connection example_edges (ClusterInstance 9 9) = 0
   \<and> (1 :: id_type) \<noteq> 2
   \<and> join_cluster_with 1 2 example_edges = Inr (projr (join_cluster_with 1 2 example_edges))
   \<and> connections_for_cluster (projr (join_cluster_with 1 2 example_edges)) 1
        = [ClusterInstance 1 20, ClusterInstance 1 21, ClusterInstance 1 22]
   \<and> find_cluster_with_connection (projr (join_cluster_with 1 2 example_edges))
        (ClusterInstance 1 22) = 1
   \<and> m_connections (projr (join_cluster_with 1 2 example_edges)) 2 = None"
proof -
  have r: "cc_reachable example_edges"
    unfolding example_edges_def
    by (intro ccr_add ccr_init)
       (simp_all add: example_connected_def add_connection_def connections_for_cluster_def)
  have n: "(1 :: id_type) \<noteq> 0" "(1 :: id_type) \<noteq> 2" by simp_all
  have m: "ClusterInstance 1 21 \<in> set (connections_for_cluster example_edges 1)"
    by (simp add: example_edges_def example_connected_def add_connection_def
        connections_for_cluster_def)
  have a: "\<forall>i. ClusterInstance 9 9 \<notin> set (connections_for_cluster example_edges i)"
    by (simp add: example_edges_def example_connected_def add_connection_def
        connections_for_cluster_def)
  have j: "join_cluster_with 1 2 example_edges
             = Inr (projr (join_cluster_with 1 2 example_edges))"
    by (simp add: join_cluster_with_def lcs_join_cluster_with_def example_edges_def
        example_connected_def add_connection_def Let_def)
  have c: "connections_for_cluster example_edges 1 @ connections_for_cluster example_edges 2
             = [ClusterInstance 1 20, ClusterInstance 1 21, ClusterInstance 1 22]"
    by (simp add: example_edges_def example_connected_def add_connection_def
        connections_for_cluster_def)
  have e: "ClusterInstance 1 22 \<in> set (connections_for_cluster example_edges 2)"
    by (simp add: example_edges_def example_connected_def add_connection_def
        connections_for_cluster_def)
  show ?thesis
    using rev_connections_inverse [of example_edges 1 2
        "projr (join_cluster_with 1 2 example_edges)"] r n m a j c e
    by metis
qed

subsection \<open>Promotion of an interacting pair\<close>





















subsection \<open>Connectivity\<close>

text \<open>
  C7: \<open>interacts\<close> is true exactly when \<open>lb\<close> is among the layers connected to \<open>la\<close> and
  the geometric test succeeds, where the test is the box interaction of the two
  transformed boxes when both polygons are boxes and the polygon interaction of the
  transformed polygons otherwise; for a layer \<open>la\<close> without an entry, and for a layer
  \<open>lb\<close> not connected to \<open>la\<close>, the result is false.
\<close>

theorem interacts_iff:
  "interacts c g a la b lb t = (lb \<in> begin_connected c la \<and> interaction_test g a b t)
   \<and> (is_box g (obj a) \<and> is_box g (obj b) \<longrightarrow>
        interaction_test g a b (CplxTrans u) =
          interact_box g (box_transformed_disp g (box_of g (obj a)) (trans a))
            (box_transformed g (box_of g (obj b)) (trans_mult g u (trans_of_disp g (trans b))))
        \<and> interaction_test g a b UnitTrans =
          interact_box g (box_transformed_disp g (box_of g (obj a)) (trans a))
            (box_transformed_disp g (box_of g (obj b)) (trans b)))
   \<and> (\<not> (is_box g (obj a) \<and> is_box g (obj b)) \<longrightarrow>
        interaction_test g a b (CplxTrans u) =
          interact_poly g (poly_transformed_disp g (obj a) (trans a))
            (poly_transformed g (obj b) (trans_mult g u (trans_of_disp g (trans b))))
        \<and> interaction_test g a b UnitTrans =
          interact_poly g (poly_transformed_disp g (obj a) (trans a))
            (poly_transformed_disp g (obj b) (trans b)))
   \<and> (m_connected c la = None \<longrightarrow> \<not> interacts c g a la b lb t)
   \<and> (lb \<notin> begin_connected c la \<longrightarrow> \<not> interacts c g a la b lb t)"
  by (auto simp add: interacts_def begin_connected_def split: option.splits)

theorem interacts_iff_witness:
  "is_box example_geometry (obj shape_a) \<and> is_box example_geometry (obj shape_b)
   \<and> \<not> is_box example_geometry (obj shape_p)
   \<and> interacts example_connectivity example_geometry shape_a 0 shape_b 1 (CplxTrans (1, 1))
   \<and> \<not> interacts example_connectivity example_geometry shape_a 0 shape_p 1 UnitTrans
   \<and> m_connected example_connectivity 7 = None
   \<and> \<not> interacts example_connectivity example_geometry shape_a 7 shape_b 1 (CplxTrans (1, 1))
   \<and> 0 \<notin> begin_connected example_connectivity 0
   \<and> \<not> interacts example_connectivity example_geometry shape_a 0 shape_b 0 (CplxTrans (1, 1))"
proof -
  have c: "begin_connected example_connectivity 0 = {1}"
      "begin_connected example_connectivity 7 = {}"
      "m_connected example_connectivity 7 = None"
    by (simp_all add: example_connectivity_def connect2_def Connectivity_new_def
        begin_connected_def connected_at_def Let_def)
  have g: "is_box example_geometry (obj shape_a)" "is_box example_geometry (obj shape_b)"
      "\<not> is_box example_geometry (obj shape_p)"
    by (simp_all add: example_geometry_def shape_a_def shape_b_def shape_p_def)
  have b: "interact_box example_geometry
             (box_transformed_disp example_geometry (box_of example_geometry (obj shape_a))
                (trans shape_a))
             (box_transformed example_geometry (box_of example_geometry (obj shape_b))
                (trans_mult example_geometry (1, 1)
                   (trans_of_disp example_geometry (trans shape_b))))"
    by (simp add: example_geometry_def shape_a_def shape_b_def)
  have p: "\<not> interact_poly example_geometry
             (poly_transformed_disp example_geometry (obj shape_a) (trans shape_a))
             (poly_transformed_disp example_geometry (obj shape_p) (trans shape_p))"
    by (simp add: example_geometry_def shape_a_def shape_p_def)
  note t1 = interacts_iff [of example_connectivity example_geometry shape_a 0 shape_b 1
      "CplxTrans (1, 1)" "(1, 1)"]
  note t2 = interacts_iff [of example_connectivity example_geometry shape_a 0 shape_p 1
      UnitTrans "(1, 1)"]
  note t3 = interacts_iff [of example_connectivity example_geometry shape_a 7 shape_b 1
      "CplxTrans (1, 1)" "(1, 1)"]
  note t4 = interacts_iff [of example_connectivity example_geometry shape_a 0 shape_b 0
      "CplxTrans (1, 1)" "(1, 1)"]
  have i1: "interacts example_connectivity example_geometry shape_a 0 shape_b 1
      (CplxTrans (1, 1))"
    using t1 c g b by simp
  have i2: "\<not> interacts example_connectivity example_geometry shape_a 0 shape_p 1 UnitTrans"
    using t2 c g p by simp
  have i3: "\<not> interacts example_connectivity example_geometry shape_a 7 shape_b 1
      (CplxTrans (1, 1))"
    using t3 c by blast
  have i4: "0 \<notin> begin_connected example_connectivity 0"
    "\<not> interacts example_connectivity example_geometry shape_a 0 shape_b 0 (CplxTrans (1, 1))"
    using t4 c by simp_all
  from g i1 i2 c(3) i3 i4 show ?thesis by blast
qed

subsection \<open>Deferred joins\<close>











lemma join_inv_unique:
  "distinct (map fst sets) \<Longrightarrow> (h, S) \<in> set sets \<Longrightarrow> (h, S') \<in> set sets \<Longrightarrow> S = S'"
  by (meson eq_key_imp_eq_value)


















































subsection \<open>Bottom-up order of the hierarchical pass\<close>

lemma all_available_iff: "all_available dn ccs \<longleftrightarrow> set ccs \<subseteq> dn"
  by (induction ccs) auto

lemma for_cells_stitched:
  "stitched (build_hier_connections_for_cells cells st) = stitched st @ cells"
  "done_set (build_hier_connections_for_cells cells st) = done_set st"
  "todo (build_hier_connections_for_cells cells st) = todo st"
  unfolding build_hier_connections_for_cells_def
  by (induction cells arbitrary: st) (simp_all add: build_hier_connections_def)

lemma children_before_append:
  "children_before l seen (xs @ ys)
     \<longleftrightarrow> children_before l seen xs \<and> children_before l (seen \<union> set xs) ys"
  by (induction xs arbitrary: seen) auto

lemma children_before_mono:
  "children_before l seen xs \<Longrightarrow> seen \<subseteq> seen' \<Longrightarrow> children_before l seen' xs"
proof (induction xs arbitrary: seen seen')
  case Nil
  then show ?case by simp
next
  case (Cons c cs)
  from Cons.prems have "children_before l (insert c seen) cs" "insert c seen \<subseteq> insert c seen'"
    by auto
  from Cons.IH [OF this] Cons.prems show ?case by auto
qed

lemma children_before_all:
  "(\<forall>c \<in> set xs. set (child_cells l c) \<subseteq> seen) \<Longrightarrow> children_before l seen xs"
proof (induction xs arbitrary: seen)
  case Nil
  then show ?case by simp
next
  case (Cons c cs)
  then have "\<forall>x \<in> set cs. set (child_cells l x) \<subseteq> insert c seen" by auto
  from Cons.IH [OF this] Cons.prems show ?case by simp
qed

lemma children_before_split:
  "children_before l {} (xs @ c # ys) \<Longrightarrow> set (child_cells l c) \<subseteq> set xs"
  by (simp add: children_before_append)

lemma calls_before:
  assumes "calls l c d" and "children_before l {} tr" and "tr = xs @ c # ys"
  shows "d \<in> set xs"
  using assms
proof (induction arbitrary: xs ys rule: calls.induct)
  case (calls_child ch l c)
  then show ?case using children_before_split by blast
next
  case (calls_step l c d ch)
  from calls_step.IH [OF calls_step.prems] have "d \<in> set xs" .
  then obtain xs1 xs2 where xs: "xs = xs1 @ d # xs2" by (meson split_list)
  with calls_step.prems have "children_before l {} (xs1 @ d # (xs2 @ c # ys))" by simp
  from children_before_split [OF this] calls_step.hyps(2) xs show ?case by auto
qed

lemma build_inv_step:
  assumes inv: "build_inv l called pre st"
    and c: "c \<notin> set pre" "set (child_cells l c) \<subseteq> set pre"
    and closed: "\<forall>c \<in> called. set (child_cells l c) \<subseteq> called"
  shows "\<exists>st1. do_build_step l called c st = Inr st1 \<and> build_inv l called (pre @ [c]) st1"
proof (cases "c \<in> called")
  case False
  with inv show ?thesis by (auto simp add: do_build_step_def build_inv_def)
next
  case True
  with c closed have ch: "set (child_cells l c) \<subseteq> called \<inter> set pre" by blast
  have i: "set (stitched st) = done_set st"
    "done_set st \<union> set (todo st) = called \<inter> set pre"
    "distinct (stitched st @ todo st)"
    "\<forall>c \<in> set (todo st). set (child_cells l c) \<subseteq> done_set st"
    "children_before l {} (stitched st)"
    using inv unfolding build_inv_def by blast+
  from i(1,2) c(1) have fresh: "c \<notin> set (stitched st)" "c \<notin> set (todo st)" by auto
  show ?thesis
  proof (cases "set (child_cells l c) \<subseteq> done_set st")
    case av: True
    then have "do_build_step l called c st = Inr (st\<lparr>todo := todo st @ [c]\<rparr>)"
      using True by (simp add: do_build_step_def all_available_iff)
    moreover have "build_inv l called (pre @ [c]) (st\<lparr>todo := todo st @ [c]\<rparr>)"
      using i fresh True av by (auto simp add: build_inv_def)
    ultimately show ?thesis by blast
  next
    case nav: False
    with ch i(2) have ne: "todo st \<noteq> []" by auto
    let ?st = "\<lparr>done_set = done_set st \<union> set (todo st), todo = [c],
                stitched = stitched st @ todo st\<rparr>"
    have "do_build_step l called c st = Inr ?st"
      using True nav ne by (simp add: do_build_step_def all_available_iff Let_def for_cells_stitched
          build_hier_connections_for_cells_def[symmetric])
    moreover have "build_inv l called (pre @ [c]) ?st"
      unfolding build_inv_def
    proof (intro conjI)
      show "set (stitched ?st) = done_set ?st" using i(1) by simp
      show "done_set ?st \<union> set (todo ?st) = called \<inter> set (pre @ [c])"
        using i(2) True by auto
      show "distinct (stitched ?st @ todo ?st)" using i(3) fresh by simp
      show "\<forall>c \<in> set (todo ?st). set (child_cells l c) \<subseteq> done_set ?st"
        using ch i(2) by simp
      have "children_before l (set (stitched st)) (todo st)"
        using i(4) i(1) by (simp add: children_before_all)
      then show "children_before l {} (stitched ?st)"
        using i(5) by (simp add: children_before_append)
    qed
    ultimately show ?thesis by blast
  qed
qed

lemma build_inv_loop:
  assumes "build_inv l called pre st"
    and "distinct (pre @ cs)" and "children_before l (set pre) cs"
    and "\<forall>c \<in> called. set (child_cells l c) \<subseteq> called"
  shows "\<exists>st1. do_build_loop l called cs st = Inr st1 \<and> build_inv l called (pre @ cs) st1"
  using assms
proof (induction cs arbitrary: pre st)
  case Nil
  then show ?case by simp
next
  case (Cons c cs)
  from Cons.prems have c: "c \<notin> set pre" "set (child_cells l c) \<subseteq> set pre" by auto
  from build_inv_step [OF Cons.prems(1) c Cons.prems(4)] obtain st1 where
    st1: "do_build_step l called c st = Inr st1" "build_inv l called (pre @ [c]) st1" by blast
  have "distinct ((pre @ [c]) @ cs)" "children_before l (set (pre @ [c])) cs"
    using Cons.prems by (auto simp add: insert_commute)
  from Cons.IH [OF st1(2) this Cons.prems(4)] st1(1) show ?case by simp
qed

text \<open>
  C5: when the bottom-up order of the layout lists every cell once and after its child
  cells, and the called cells are cells of the layout and closed under child cells, the
  second pass of \<open>do_build\<close> fails no assertion and stitches every called cell exactly
  once, each one after all its child cells and after every cell it calls through other
  cells.
\<close>

theorem do_build_bottom_up:
  assumes "distinct (bottom_up l)" and "children_before l {} (bottom_up l)"
    and "called \<subseteq> set (bottom_up l)" and "\<forall>c \<in> called. set (child_cells l c) \<subseteq> called"
  shows "\<exists>tr. do_build_hier l called = Inr tr \<and> distinct tr \<and> set tr = called
           \<and> (\<forall>xs c ys. tr = xs @ c # ys \<longrightarrow>
                 set (child_cells l c) \<subseteq> set xs \<and> (\<forall>d. calls l c d \<longrightarrow> d \<in> set xs))"
proof -
  let ?st0 = "\<lparr>done_set = {}, todo = [], stitched = []\<rparr>"
  have "build_inv l called [] ?st0" by (simp add: build_inv_def)
  from build_inv_loop [OF this, of "bottom_up l"] assms obtain st where
    st: "do_build_loop l called (bottom_up l) ?st0 = Inr st" "build_inv l called (bottom_up l) st"
    by auto
  let ?tr = "stitched st @ todo st"
  have i: "set (stitched st) = done_set st"
    "done_set st \<union> set (todo st) = called \<inter> set (bottom_up l)"
    "distinct (stitched st @ todo st)"
    "\<forall>c \<in> set (todo st). set (child_cells l c) \<subseteq> done_set st"
    "children_before l {} (stitched st)"
    using st(2) unfolding build_inv_def by blast+
  have r: "do_build_hier l called = Inr ?tr"
    using st(1) by (simp add: do_build_hier_def for_cells_stitched)
  have s: "set ?tr = called" using i(1,2) assms(3) by auto
  have "children_before l (set (stitched st)) (todo st)"
    using i(4) i(1) by (simp add: children_before_all)
  then have cb: "children_before l {} ?tr"
    using i(5) by (simp add: children_before_append)
  have "\<forall>xs c ys. ?tr = xs @ c # ys \<longrightarrow>
          set (child_cells l c) \<subseteq> set xs \<and> (\<forall>d. calls l c d \<longrightarrow> d \<in> set xs)"
    using cb children_before_split calls_before by metis
  with r i(3) s show ?thesis by blast
qed

lemma example_layout_run: "do_build_hier example_layout {0, 1, 2} = Inr [2, 1, 0]"
  by (simp add: do_build_hier_def example_layout_def do_build_step_def Let_def
      build_hier_connections_for_cells_def build_hier_connections_def)

theorem do_build_bottom_up_witness:
  "distinct (bottom_up example_layout)
   \<and> children_before example_layout {} (bottom_up example_layout)
   \<and> {0, 1, 2} \<subseteq> set (bottom_up example_layout)
   \<and> set (child_cells example_layout 0) \<subseteq> {0, 1, 2}
   \<and> set (child_cells example_layout 1) \<subseteq> {0, 1, 2}
   \<and> set (child_cells example_layout 2) \<subseteq> {0, 1, 2}
   \<and> do_build_hier example_layout {0, 1, 2} = Inr [2, 1, 0]
   \<and> set (child_cells example_layout 0) \<subseteq> set [2, 1]
   \<and> calls example_layout 0 2 \<and> 2 \<in> set [2, 1 :: cell_index_type]"
proof -
  have h1: "distinct (bottom_up example_layout)"
    and h2: "children_before example_layout {} (bottom_up example_layout)"
    and h3: "{0, 1, 2} \<subseteq> set (bottom_up example_layout)"
    and c0: "set (child_cells example_layout 0) \<subseteq> {0, 1, 2}"
    and c1: "set (child_cells example_layout 1) \<subseteq> {0, 1, 2}"
    and c2: "set (child_cells example_layout 2) \<subseteq> {0, 1, 2}"
    by (simp_all add: example_layout_def)
  from c0 c1 c2 have h4: "\<forall>c \<in> {0, 1, 2}. set (child_cells example_layout c) \<subseteq> {0, 1, 2}"
    by blast
  have ca: "calls example_layout 0 2"
    by (rule calls_child) (simp add: example_layout_def)
  from do_build_bottom_up [OF h1 h2 h3 h4] example_layout_run
  have "\<forall>xs c ys. [2, 1, 0] = xs @ c # ys \<longrightarrow>
          set (child_cells example_layout c) \<subseteq> set xs
          \<and> (\<forall>d. calls example_layout c d \<longrightarrow> d \<in> set xs)"
    by auto
  then have "set (child_cells example_layout 0) \<subseteq> set [2, 1]
          \<and> (\<forall>d. calls example_layout 0 d \<longrightarrow> d \<in> set [2, 1])"
    by (metis append_Cons append_Nil)
  with ca have "set (child_cells example_layout 0) \<subseteq> set [2, 1]"
    and "2 \<in> set [2, 1 :: cell_index_type]" by blast+
  with h1 h2 h3 c0 c1 c2 example_layout_run ca show ?thesis by blast
qed

subsection \<open>Splitting a cluster\<close>

lemma fst_shapes_insert: "fst ` set (shapes_insert la xs m) = insert la (fst ` set m)"
proof (induction m)
  case Nil
  then show ?case by simp
next
  case (Cons e m)
  obtain k t where e: "e = (k, t)" by (cases e)
  with Cons.IH show ?case by (cases "la < k"; cases "la = k") auto
qed

lemma sorted_shapes_insert:
  "sorted_wrt (<) (map fst m) \<Longrightarrow> sorted_wrt (<) (map fst (shapes_insert la xs m))"
proof (induction m)
  case Nil
  then show ?case by simp
next
  case (Cons e m)
  obtain k t where e: "e = (k, t)" by (cases e)
  from Cons.prems e have k: "\<forall>x \<in> fst ` set m. k < x" and s: "sorted_wrt (<) (map fst m)"
    by auto
  show ?case
  proof (cases "la < k")
    case True
    with k have "\<forall>x \<in> fst ` set m. la < x" by auto
    with True e Cons.prems show ?thesis by auto
  next
    case False
    show ?thesis
    proof (cases "la = k")
      case True
      with e Cons.prems show ?thesis by auto
    next
      case ne: False
      with False have "k < la" by auto
      with k have "\<forall>x \<in> fst ` set (shapes_insert la xs m). k < x"
        by (auto simp add: fst_shapes_insert)
      with e False ne Cons.IH [OF s] show ?thesis by auto
    qed
  qed
qed

lemma total_shapes_insert:
  "sum_list (map (\<lambda>e. length (snd e)) (shapes_insert la xs m))
     = sum_list (map (\<lambda>e. length (snd e)) m) + length xs"
  by (induction m) auto

lemma map_of_sorted_less:
  fixes la :: layer_id
  shows "\<forall>x \<in> fst ` set m. la < x \<Longrightarrow> map_of m la = None"
  by (induction m) auto

lemma map_of_shapes_insert:
  "sorted_wrt (<) (map fst m) \<Longrightarrow>
     map_of (shapes_insert la xs m)
       = (map_of m)(la \<mapsto> (case map_of m la of None \<Rightarrow> [] | Some t \<Rightarrow> t) @ xs)"
proof (induction m)
  case Nil
  then show ?case by simp
next
  case (Cons e m)
  obtain k t where e: "e = (k, t)" by (cases e)
  from Cons.prems e have k: "\<forall>x \<in> fst ` set m. k < x" and s: "sorted_wrt (<) (map fst m)"
    by auto
  show ?case
  proof (cases "la < k")
    case True
    with k have "\<forall>x \<in> fst ` set m. la < x" by auto
    from map_of_sorted_less [OF this] True e show ?thesis by auto
  next
    case False
    show ?thesis
    proof (cases "la = k")
      case True
      with e show ?thesis by auto
    next
      case ne: False
      with False e Cons.IH [OF s] show ?thesis by (auto simp add: fun_eq_iff)
    qed
  qed
qed

lemma begin_shapes_add:
  "wf_cluster c \<Longrightarrow>
     begin_shapes (add s la c) l = (if l = la then begin_shapes c la @ [s] else begin_shapes c l)"
  by (simp add: wf_cluster_def layers_def begin_shapes_def add_def map_of_shapes_insert)

lemma wf_cluster_add: "wf_cluster c \<Longrightarrow> wf_cluster (add s la c)"
  by (simp add: wf_cluster_def layers_def add_def sorted_shapes_insert)

lemma tree_total_add: "tree_total (add s la c) = tree_total c + 1"
  by (simp add: tree_total_def add_def total_shapes_insert)

lemma half_ok_add: "half_ok i c \<Longrightarrow> half_ok i (add s la c)"
  by (simp add: half_ok_def wf_cluster_add tree_total_add) (simp add: add_def)

lemma half_ok_new: "half_ok i (local_cluster_new i)"
  by (simp add: half_ok_def wf_cluster_def layers_def tree_total_def local_cluster_new_def)

lemma shape_count_total:
  assumes "wf_cluster c"
  shows "shape_count c = tree_total c"
proof -
  have "sorted_wrt (<) (map fst m) \<Longrightarrow>
      sum_list (map (\<lambda>e. length (case map_of m (fst e) of None \<Rightarrow> [] | Some t \<Rightarrow> t)) m)
        = sum_list (map (\<lambda>e. length (snd e)) m)" for m :: "(layer_id \<times> 'a list) list"
  proof (induction m)
    case Nil
    then show ?case by simp
  next
    case (Cons e m)
    obtain k t where e: "e = (k, t)" by (cases e)
    from Cons.prems e have k: "\<forall>x \<in> set m. k < fst x" and s: "sorted_wrt (<) (map fst m)"
      by auto
    let ?F = "\<lambda>x. length (case map_of (e # m) (fst x) of None \<Rightarrow> [] | Some t \<Rightarrow> t)"
    let ?G = "\<lambda>x. length (case map_of m (fst x) of None \<Rightarrow> [] | Some t \<Rightarrow> t)"
    have mp: "map ?F m = map ?G m"
    proof (rule map_cong [OF refl])
      fix x assume "x \<in> set m"
      with k have "fst x \<noteq> k" by auto
      with e show "?F x = ?G x" by simp
    qed
    have "sum_list (map ?F (e # m)) = ?F e + sum_list (map ?F m)" by simp
    also have "?F e = length t" using e by simp
    also have "sum_list (map ?F m) = sum_list (map ?G m)" by (simp only: mp)
    also have "\<dots> = sum_list (map (\<lambda>e. length (snd e)) m)" by (rule Cons.IH [OF s])
    finally show ?case using e by simp
  qed
  with assms show ?thesis
    by (simp add: wf_cluster_def shape_count_def tree_total_def layers_def begin_shapes_def
        comp_def)
qed

lemma dispatch_shape_props:
  assumes "half_ok i (fst ab)" and "half_ok i (snd ab)"
  shows "half_ok i (fst (dispatch_shape g x y l s ab))"
    and "half_ok i (snd (dispatch_shape g x y l s ab))"
    and "tree_total (fst (dispatch_shape g x y l s ab))
           + tree_total (snd (dispatch_shape g x y l s ab))
         = tree_total (fst ab) + tree_total (snd ab) + 1"
    and "mset (begin_shapes (fst (dispatch_shape g x y l s ab)) l')
           + mset (begin_shapes (snd (dispatch_shape g x y l s ab)) l')
         = mset (begin_shapes (fst ab) l') + mset (begin_shapes (snd ab) l')
           + (if l' = l then {#s#} else {#})"
proof -
  from assms have wf: "wf_cluster (fst ab)" "wf_cluster (snd ab)"
    by (simp_all add: half_ok_def)
  from assms show "half_ok i (fst (dispatch_shape g x y l s ab))"
    and "half_ok i (snd (dispatch_shape g x y l s ab))"
    by (simp_all add: dispatch_shape_def Let_def half_ok_add)
  show "tree_total (fst (dispatch_shape g x y l s ab))
           + tree_total (snd (dispatch_shape g x y l s ab))
         = tree_total (fst ab) + tree_total (snd ab) + 1"
    by (simp add: dispatch_shape_def Let_def tree_total_add)
  from wf show "mset (begin_shapes (fst (dispatch_shape g x y l s ab)) l')
           + mset (begin_shapes (snd (dispatch_shape g x y l s ab)) l')
         = mset (begin_shapes (fst ab) l') + mset (begin_shapes (snd ab) l')
           + (if l' = l then {#s#} else {#})"
    by (simp add: dispatch_shape_def Let_def begin_shapes_add)
qed

lemma dispatch_fold_props:
  assumes "half_ok i (fst ab)" and "half_ok i (snd ab)"
  shows "half_ok i (fst (fold (dispatch_shape g x y l) ss ab))
    \<and> half_ok i (snd (fold (dispatch_shape g x y l) ss ab))
    \<and> tree_total (fst (fold (dispatch_shape g x y l) ss ab))
           + tree_total (snd (fold (dispatch_shape g x y l) ss ab))
         = tree_total (fst ab) + tree_total (snd ab) + length ss
    \<and> (\<forall>l'. mset (begin_shapes (fst (fold (dispatch_shape g x y l) ss ab)) l')
           + mset (begin_shapes (snd (fold (dispatch_shape g x y l) ss ab)) l')
         = mset (begin_shapes (fst ab) l') + mset (begin_shapes (snd ab) l')
           + (if l' = l then mset ss else {#}))"
  using assms
proof (induction ss arbitrary: ab)
  case Nil
  then show ?case by simp
next
  case (Cons s ss)
  note d = dispatch_shape_props [OF Cons.prems, of g x y l s]
  from Cons.IH [OF d(1) d(2)] d(3) d(4) show ?case by (auto simp add: ac_simps)
qed

lemma split_layers_props:
  fixes g :: "('a, 'b) split_geometry" and x y :: int and cl :: "'a local_cluster"
    and ls :: "layer_id list"
  assumes "half_ok i (fst ab)" and "half_ok i (snd ab)"
  defines "r \<equiv> fold (\<lambda>l ab. fold (dispatch_shape g x y l) (begin_shapes cl l) ab) ls ab"
  shows "half_ok i (fst r) \<and> half_ok i (snd r)
    \<and> tree_total (fst r) + tree_total (snd r)
         = tree_total (fst ab) + tree_total (snd ab)
           + sum_list (map (\<lambda>l. length (begin_shapes cl l)) ls)
    \<and> (\<forall>l'. mset (begin_shapes (fst r) l') + mset (begin_shapes (snd r) l')
         = mset (begin_shapes (fst ab) l') + mset (begin_shapes (snd ab) l')
           + sum_list (map (\<lambda>l. if l' = l then mset (begin_shapes cl l) else {#}) ls))"
  using assms(1,2) unfolding r_def
proof (induction ls arbitrary: ab)
  case Nil
  then show ?case by simp
next
  case (Cons l ls)
  note d = dispatch_fold_props [OF Cons.prems, of g x y l "begin_shapes cl l"]
  from d have h: "half_ok i (fst (fold (dispatch_shape g x y l) (begin_shapes cl l) ab))"
    "half_ok i (snd (fold (dispatch_shape g x y l) (begin_shapes cl l) ab))" by blast+
  from Cons.IH [OF h] d show ?case by (auto simp add: ac_simps)
qed

lemma sum_list_if_distinct:
  "distinct ls \<Longrightarrow>
     sum_list (map (\<lambda>l. if l' = l then (X l :: 'a multiset) else {#}) ls)
       = (if l' \<in> set ls then X l' else {#})"
  by (induction ls) auto

lemma begin_shapes_notin:
  assumes "l \<notin> set (layers cl)"
  shows "begin_shapes cl l = []"
proof -
  from assms have "map_of (m_shapes cl) l = None"
    by (simp add: layers_def map_of_eq_None_iff)
  then show ?thesis by (simp add: begin_shapes_def)
qed

lemma wf_cluster_distinct: "wf_cluster cl \<Longrightarrow> distinct (layers cl)"
  by (simp add: wf_cluster_def strict_sorted_iff)

lemma split_halves_props:
  "half_ok (m_id cl) (fst (split_halves g cl))"
  "half_ok (m_id cl) (snd (split_halves g cl))"
  "tree_total (fst (split_halves g cl)) + tree_total (snd (split_halves g cl)) = shape_count cl"
  "wf_cluster cl \<Longrightarrow>
     mset (begin_shapes (fst (split_halves g cl)) l) + mset (begin_shapes (snd (split_halves g cl)) l)
       = mset (begin_shapes cl l)"
proof -
  let ?n = "(local_cluster_new (m_id cl), local_cluster_new (m_id cl))
              :: 'a local_cluster \<times> 'a local_cluster"
  have n: "half_ok (m_id cl) (fst ?n)" "half_ok (m_id cl) (snd ?n)"
    by (simp_all add: half_ok_new)
  have z: "tree_total (local_cluster_new (m_id cl) :: 'a local_cluster) = 0"
    "\<And>l. begin_shapes (local_cluster_new (m_id cl) :: 'a local_cluster) l = []"
    by (simp_all add: tree_total_def local_cluster_new_def begin_shapes_def)
  note p = split_layers_props [OF n, where ls = "layers cl" and cl = cl and g = g]
  from p show "half_ok (m_id cl) (fst (split_halves g cl))"
    and "half_ok (m_id cl) (snd (split_halves g cl))"
    by (simp_all add: split_halves_def Let_def)
  from p z show "tree_total (fst (split_halves g cl)) + tree_total (snd (split_halves g cl))
      = shape_count cl"
    by (simp add: split_halves_def Let_def shape_count_def)
  assume wf: "wf_cluster cl"
  have "sum_list (map (\<lambda>k. if l = k then mset (begin_shapes cl k) else {#}) (layers cl))
      = mset (begin_shapes cl l)"
    using sum_list_if_distinct [OF wf_cluster_distinct [OF wf], of l "\<lambda>k. mset (begin_shapes cl k)"]
      begin_shapes_notin [of l cl]
    by auto
  with p z show "mset (begin_shapes (fst (split_halves g cl)) l)
        + mset (begin_shapes (snd (split_halves g cl)) l) = mset (begin_shapes cl l)"
    by (simp add: split_halves_def Let_def)
qed

lemma half_size_pos: "half_ok i c \<Longrightarrow> m_size c \<noteq> 0 \<Longrightarrow> 0 < tree_total c"
  by (cases "tree_total c = 0") (simp_all add: half_ok_def)

lemma split_halves_smaller:
  assumes "\<not> (m_size (fst (split_halves g cl)) = 0 \<or> m_size (snd (split_halves g cl)) = 0)"
  shows "shape_count (fst (split_halves g cl)) < shape_count cl"
    and "shape_count (snd (split_halves g cl)) < shape_count cl"
proof -
  note p = split_halves_props(1-3) [where cl = cl and g = g]
  from p(1) p(2) assms have "0 < tree_total (fst (split_halves g cl))"
      "0 < tree_total (snd (split_halves g cl))"
    by (simp_all add: half_size_pos)
  moreover have "shape_count (fst (split_halves g cl)) = tree_total (fst (split_halves g cl))"
    "shape_count (snd (split_halves g cl)) = tree_total (snd (split_halves g cl))"
    using p(1) p(2) by (simp_all add: shape_count_total half_ok_def)
  ultimately show "shape_count (fst (split_halves g cl)) < shape_count cl"
    and "shape_count (snd (split_halves g cl)) < shape_count cl"
    using p(3) by simp_all
qed

text \<open>Each half has fewer shapes than the cluster when neither is empty, so the
  recursion of \<open>split_cluster\<close> ends.\<close>

termination split_cluster
  by (relation "measure (\<lambda>(g, cl, r, out). shape_count cl)")
     (simp_all add: split_halves_smaller)

declare split_cluster.simps [simp del]

lemma fold_shapes_insert:
  fixes m es :: "(layer_id \<times> 'a list) list"
  assumes "sorted_wrt (<) (map fst m)" and "sorted_wrt (<) (map fst es)"
  shows "sorted_wrt (<) (map fst (fold (\<lambda>(l, t) m. shapes_insert l t m) es m))
    \<and> (case map_of (fold (\<lambda>(l, t) m. shapes_insert l t m) es m) l of None \<Rightarrow> [] | Some t \<Rightarrow> t)
        = (case map_of m l of None \<Rightarrow> [] | Some t \<Rightarrow> t)
          @ (case map_of es l of None \<Rightarrow> [] | Some t \<Rightarrow> t)"
  using assms
proof (induction es arbitrary: m)
  case Nil
  then show ?case by simp
next
  case (Cons e es)
  obtain k t where e: "e = (k, t)" by (cases e)
  from Cons.prems e have k: "\<forall>x \<in> fst ` set es. k < x" and s: "sorted_wrt (<) (map fst es)"
    by auto
  have n: "map_of es k = None" by (rule map_of_sorted_less [OF k])
  have s1: "sorted_wrt (<) (map fst (shapes_insert k t m))"
    by (rule sorted_shapes_insert [OF Cons.prems(1)])
  from Cons.IH [OF s1 s] e n show ?case
    by (auto simp add: map_of_shapes_insert [OF Cons.prems(1)])
qed

lemma join_with_shapes:
  assumes "wf_cluster c" and "wf_cluster other"
  shows "wf_cluster (join_with other c)"
    and "begin_shapes (join_with other c) l = begin_shapes c l @ begin_shapes other l"
  using fold_shapes_insert [of "m_shapes c" "m_shapes other" l] assms
  by (simp_all add: wf_cluster_def layers_def begin_shapes_def join_with_def)

lemma cluster_reachable_wf: "cluster_reachable c \<Longrightarrow> wf_cluster c"
proof (induction rule: cluster_reachable.induct)
  case (cr_new i)
  show ?case by (simp add: wf_cluster_def layers_def local_cluster_new_def)
next
  case (cr_clear c)
  show ?case by (simp add: wf_cluster_def layers_def clear_def)
next
  case (cr_add_attr c a)
  then show ?case by (simp add: wf_cluster_def layers_def add_attr_def)
next
  case (cr_add c s la)
  then show ?case by (simp add: wf_cluster_add)
next
  case (cr_join_with c other)
  then show ?case by (simp add: join_with_shapes)
next
  case (cr_set_id c i)
  then show ?case by (simp add: wf_cluster_def layers_def set_id_def)
qed

lemma fold_join_with_shapes:
  assumes "wf_cluster c0" and "\<forall>f \<in> set fs. wf_cluster f"
  shows "wf_cluster (fold join_with fs c0)
    \<and> mset (begin_shapes (fold join_with fs c0) l)
        = mset (begin_shapes c0 l) + sum_list (map (\<lambda>f. mset (begin_shapes f l)) fs)"
  using assms
proof (induction fs arbitrary: c0)
  case Nil
  then show ?case by simp
next
  case (Cons f fs)
  from Cons.prems have w: "wf_cluster (join_with f c0)" "\<forall>f \<in> set fs. wf_cluster f"
    by (simp_all add: join_with_shapes)
  from Cons.IH [OF w] Cons.prems show ?case by (simp add: join_with_shapes)
qed

lemma fold_join_with_attrs:
  "m_attrs (fold join_with fs c0) = m_attrs c0 \<union> \<Union> (m_attrs ` set fs)"
  by (induction fs arbitrary: c0) (auto simp add: join_with_def)

lemma split_cluster_frags:
  "wf_cluster cl \<Longrightarrow>
     \<exists>fs. split_cluster g cl r out = (length fs, out @ fs)
       \<and> (\<forall>f \<in> set fs. half_ok (m_id cl) f)
       \<and> (fs \<noteq> [] \<longrightarrow>
            (\<forall>l. sum_list (map (\<lambda>f. mset (begin_shapes f l)) fs) = mset (begin_shapes cl l)))"
proof (induction g cl r out rule: split_cluster.induct)
  case (1 g cl r out)
  let ?a = "fst (split_halves g cl)" and ?b = "snd (split_halves g cl)"
  show ?case
  proof (cases "dless g (area_ratio g cl) r \<or> m_size ?a = 0 \<or> m_size ?b = 0")
    case True
    then have "split_cluster g cl r out = (0, out)"
      by (subst split_cluster.simps) (auto simp add: Let_def)
    then show ?thesis by simp
  next
    case False
    then have c: "\<not> dless g (area_ratio g cl) r" "\<not> (m_size ?a = 0 \<or> m_size ?b = 0)"
      by auto
    note h = split_halves_props [where cl = cl and g = g]
    have wa: "wf_cluster ?a" and wb: "wf_cluster ?b" and ia: "m_id ?a = m_id cl"
      and ib: "m_id ?b = m_id cl"
      using h(1,2) by (simp_all add: half_ok_def)
    from "1.IH"(1) [OF c(1) refl refl c(2) wa] ia obtain fa where
      fa: "split_cluster g ?a r out = (length fa, out @ fa)"
        "\<forall>f \<in> set fa. half_ok (m_id cl) f"
        "fa \<noteq> [] \<longrightarrow>
           (\<forall>l. sum_list (map (\<lambda>f. mset (begin_shapes f l)) fa) = mset (begin_shapes ?a l))"
      by auto
    from "1.IH"(2) [OF c(1) refl refl c(2) refl wb] ib fa(1) obtain fb where
      fb: "split_cluster g ?b r (out @ fa) = (length fb, out @ fa @ fb)"
        "\<forall>f \<in> set fb. half_ok (m_id cl) f"
        "fb \<noteq> [] \<longrightarrow>
           (\<forall>l. sum_list (map (\<lambda>f. mset (begin_shapes f l)) fb) = mset (begin_shapes ?b l))"
      by auto
    let ?fs = "fa @ fb @ (if fa = [] then [?a] else []) @ (if fb = [] then [?b] else [])"
    have eq: "split_cluster g cl r out = (length ?fs, out @ ?fs)"
      using c fa(1) fb(1)
      by (subst split_cluster.simps) (cases "fa = []"; cases "fb = []"; simp add: Let_def)
    have ok: "\<forall>f \<in> set ?fs. half_ok (m_id cl) f"
      using fa(2) fb(2) h(1,2) by auto
    have ms: "sum_list (map (\<lambda>f. mset (begin_shapes f l)) ?fs) = mset (begin_shapes cl l)" for l
    proof -
      have "sum_list (map (\<lambda>f. mset (begin_shapes f l)) ?fs)
          = mset (begin_shapes ?a l) + mset (begin_shapes ?b l)"
        using fa(3) fb(3) by (cases "fa = []"; cases "fb = []") simp_all
      with h(4) [OF "1.prems"] show ?thesis by simp
    qed
    from eq ok ms show ?thesis by blast
  qed
qed

text \<open>
  C6, amended: for a cluster whose layer keys ascend (as they do in every cluster that the
  operations of the class make, see \<open>cluster_reachable_wf\<close>), a split at any ratio emits as many
  fragments as it returns, every fragment has the id of the cluster and no attributes,
  and when the split emits fragments, joining them all into a new cluster gives, on every
  layer, the multiset of shapes of the cluster; the attribute set of the join is empty.
\<close>

theorem split_cluster_reassemble:
  assumes "wf_cluster cl"
  shows "\<exists>fs. split_cluster g cl r [] = (length fs, fs)
           \<and> (\<forall>f \<in> set fs. m_id f = m_id cl \<and> m_attrs f = {})
           \<and> m_attrs (fold join_with fs (local_cluster_new (m_id cl))) = {}
           \<and> (fs \<noteq> [] \<longrightarrow>
                (\<forall>l. mset (begin_shapes (fold join_with fs (local_cluster_new (m_id cl))) l)
                       = mset (begin_shapes cl l)))"
proof -
  from split_cluster_frags [OF assms, of g r "[]"] obtain fs where
    fs: "split_cluster g cl r [] = (length fs, fs)"
      "\<forall>f \<in> set fs. half_ok (m_id cl) f"
      "fs \<noteq> [] \<longrightarrow>
         (\<forall>l. sum_list (map (\<lambda>f. mset (begin_shapes f l)) fs) = mset (begin_shapes cl l))"
    by auto
  let ?n = "local_cluster_new (m_id cl) :: 'a local_cluster"
  have n: "wf_cluster ?n" "m_attrs ?n = {}" "\<And>l. begin_shapes ?n l = []"
    by (simp_all add: wf_cluster_def layers_def local_cluster_new_def begin_shapes_def)
  from fs(2) have w: "\<forall>f \<in> set fs. wf_cluster f"
    and i: "\<forall>f \<in> set fs. m_id f = m_id cl \<and> m_attrs f = {}"
    by (simp_all add: half_ok_def)
  have a: "m_attrs (fold join_with fs ?n) = {}"
    using i n(2) by (simp add: fold_join_with_attrs)
  have "mset (begin_shapes (fold join_with fs ?n) l)
      = sum_list (map (\<lambda>f. mset (begin_shapes f l)) fs)" for l
    using fold_join_with_shapes [OF n(1) w, of l] n(3) by simp
  with fs(3) have m: "fs \<noteq> [] \<longrightarrow>
      (\<forall>l. mset (begin_shapes (fold join_with fs ?n) l) = mset (begin_shapes cl l))"
    by simp
  from fs(1) i a m show ?thesis by blast
qed

lemma example_cluster_halves:
  "split_halves example_split_geometry example_cluster = (example_fragment_a, example_fragment_b)"
  by (simp add: split_halves_def example_split_geometry_def example_cluster_def
      example_fragment_a_def example_fragment_b_def add_attr_def add_def local_cluster_new_def
      layers_def begin_shapes_def dispatch_shape_def Let_def)

lemma example_area_ratios:
  "area_ratio example_split_geometry example_cluster = 11 / 2"
  "area_ratio example_split_geometry example_fragment_a = 1"
  "area_ratio example_split_geometry example_fragment_b = 1"
  by (simp_all add: area_ratio_def example_split_geometry_def example_cluster_def
      example_fragment_a_def example_fragment_b_def add_attr_def add_def local_cluster_new_def
      Let_def)

lemma example_fragments_whole:
  "split_cluster example_split_geometry example_fragment_a 2 out = (0, out)"
  "split_cluster example_split_geometry example_fragment_b 2 out = (0, out)"
proof -
  have d: "dless example_split_geometry (area_ratio example_split_geometry example_fragment_a) 2"
    "dless example_split_geometry (area_ratio example_split_geometry example_fragment_b) 2"
    by (simp_all add: example_area_ratios) (simp_all add: example_split_geometry_def)
  show "split_cluster example_split_geometry example_fragment_a 2 out = (0, out)"
    by (subst split_cluster.simps) (simp add: d)
  show "split_cluster example_split_geometry example_fragment_b 2 out = (0, out)"
    by (subst split_cluster.simps) (simp add: d)
qed

lemma example_cluster_split:
  "split_cluster example_split_geometry example_cluster 2 []
     = (2, [example_fragment_a, example_fragment_b])"
proof -
  have "\<not> dless example_split_geometry (area_ratio example_split_geometry example_cluster) 2"
    by (simp add: example_area_ratios) (simp add: example_split_geometry_def)
  moreover have "m_size example_fragment_a \<noteq> 0" "m_size example_fragment_b \<noteq> 0"
    by (simp_all add: example_fragment_a_def example_fragment_b_def add_def local_cluster_new_def)
  ultimately show ?thesis
    by (subst split_cluster.simps)
       (simp add: example_cluster_halves example_fragments_whole Let_def)
qed

text \<open>
  C6, as the claim states it, fails for the attributes: \<open>split_cluster\<close> makes the two
  halves with the id of the cluster only and adds shapes to them, never attributes. The
  example cluster has the attribute 7 and splits into two fragments at the ratio 2; the
  fragments joined together have no attribute.
\<close>

theorem split_attrs_counterexample:
  "fst (split_cluster example_split_geometry example_cluster 2 []) = 2
   \<and> m_attrs (fold join_with (snd (split_cluster example_split_geometry example_cluster 2 []))
        (local_cluster_new (m_id example_cluster))) \<noteq> m_attrs example_cluster"
  by (simp add: example_cluster_split)
     (simp add: example_cluster_def example_fragment_a_def example_fragment_b_def join_with_def
        add_attr_def add_def local_cluster_new_def)

theorem split_cluster_reassemble_witness:
  "wf_cluster example_cluster
   \<and> split_cluster example_split_geometry example_cluster 2 []
       = (2, [example_fragment_a, example_fragment_b])
   \<and> m_id example_fragment_a = m_id example_cluster \<and> m_attrs example_fragment_a = {}
   \<and> m_id example_fragment_b = m_id example_cluster \<and> m_attrs example_fragment_b = {}
   \<and> [example_fragment_a, example_fragment_b] \<noteq> []
   \<and> mset (begin_shapes (fold join_with [example_fragment_a, example_fragment_b]
        (local_cluster_new (m_id example_cluster))) 0) = mset (begin_shapes example_cluster 0)"
proof -
  have w: "wf_cluster example_cluster"
    by (simp add: wf_cluster_def layers_def example_cluster_def add_attr_def add_def
        local_cluster_new_def)
  from split_cluster_reassemble [OF w, of example_split_geometry 2] example_cluster_split
  have "(\<forall>f \<in> set [example_fragment_a, example_fragment_b].
            m_id f = m_id example_cluster \<and> m_attrs f = {})
      \<and> ([example_fragment_a, example_fragment_b] \<noteq> [] \<longrightarrow>
           (\<forall>l. mset (begin_shapes (fold join_with [example_fragment_a, example_fragment_b]
              (local_cluster_new (m_id example_cluster))) l) = mset (begin_shapes example_cluster l)))"
    by auto
  with w example_cluster_split show ?thesis by simp
qed

end
